theory Spec2Isabelle
  imports Main
begin

section \<open>Go runtime: buffered channels and panics\<close>

text \<open>
  The hub (package websocket of the repository) talks to each client through a buffered
  channel \<^verbatim>\<open>send chan []byte\<close>. Three channel operations occur in the source: the
  non-blocking send \<^verbatim>\<open>select { case ch <- v: default: ... }\<close>, \<^verbatim>\<open>close(ch)\<close> and the
  receive of the write pump. In Go a send on a closed channel panics (also inside a
  \<^verbatim>\<open>select\<close> with a \<^verbatim>\<open>default\<close> branch), and closing a closed channel panics. A panic
  in any goroutine ends the process, so it is an error value of the model.
\<close>

datatype panic = SendOnClosedChannel | CloseOfClosedChannel

record 'a chan =
  buf :: "'a list"
  cap :: nat
  closed :: bool

definition make_chan :: "nat \<Rightarrow> 'a chan" where
  "make_chan n = \<lparr>buf = [], cap = n, closed = False\<rparr>"

datatype 'a select_send = Sent "'a chan" | Default

definition select_send :: "'a chan \<Rightarrow> 'a \<Rightarrow> panic + 'a select_send" where
  "select_send ch v =
     (if closed ch then Inl SendOnClosedChannel
      else if length (buf ch) < cap ch then Inr (Sent (ch\<lparr>buf := buf ch @ [v]\<rparr>))
      else Inr Default)"

definition close_chan :: "'a chan \<Rightarrow> panic + 'a chan" where
  "close_chan ch = (if closed ch then Inl CloseOfClosedChannel else Inr (ch\<lparr>closed := True\<rparr>))"

section \<open>Time\<close>

text \<open>
  \<^verbatim>\<open>time.Time\<close> and \<^verbatim>\<open>time.Duration\<close> are counted in nanoseconds; \<^verbatim>\<open>Unix()\<close> is the
  number of whole seconds.
\<close>

type_synonym time = int

definition Second :: int where
  "Second = 1000000000"

definition Unix :: "time \<Rightarrow> int" where
  "Unix t = t div 1000000000"

definition writeWait :: int where
  "writeWait = 10 * Second"

definition pongWait :: int where
  "pongWait = 60 * Second"

definition pingPeriod :: int where
  "pingPeriod = (pongWait * 9) div 10"

definition maxMessageSize :: nat where
  "maxMessageSize = 512"

section \<open>Messages\<close>

type_synonym bytes = string

text \<open>
  \<^verbatim>\<open>Subscription.Type\<close> is the field \<open>subType\<close> (the record \<open>Message\<close> below has a
  field \<open>Type\<close> of its own).
\<close>

record Subscription =
  subType :: string
  Instruments :: "string list"
  AccountIDs :: "string list"

text \<open>
  \<^verbatim>\<open>Message.Data\<close> is an \<^verbatim>\<open>interface{}\<close>. The hub itself stores \<^verbatim>\<open>nil\<close>, the map
  \<^verbatim>\<open>{"client_id": id}\<close> of the welcome message, or a \<^verbatim>\<open>Subscription\<close>; anything else
  (what the JSON decoder produced for an inbound frame, what a publisher passed in) is
  an opaque value of type \<open>'j\<close>.
\<close>

datatype 'j data = NoData | ClientIdMap string | SubscriptionData Subscription | Opaque 'j

record 'j Message =
  Type :: string
  Action :: string
  Data :: "'j data"
  Error :: string
  Timestamp :: int
  ClientID :: string

text \<open>The zero value of \<^verbatim>\<open>Message\<close>: a struct literal sets the fields it names.\<close>

definition Message0 :: "'j Message" where
  "Message0 = \<lparr>Type = [], Action = [], Data = NoData, Error = [], Timestamp = 0, ClientID = []\<rparr>"

text \<open>
  The package \<^verbatim>\<open>encoding/json\<close> is a parameter of the model. \<open>encode\<close> is the text
  \<^verbatim>\<open>json.Marshal\<close> writes for a message, \<open>unsupported\<close> says which opaque values it
  rejects (channels, functions, NaN), \<open>decodeMessage\<close> is \<^verbatim>\<open>json.Unmarshal\<close> into a
  \<^verbatim>\<open>Message\<close>, and \<open>decodeSubscription\<close> is the round trip of \<^verbatim>\<open>handleSubscription\<close>:
  \<^verbatim>\<open>json.Marshal(message.Data)\<close> (its error dropped) followed by \<^verbatim>\<open>json.Unmarshal\<close>
  into a \<^verbatim>\<open>Subscription\<close>.
\<close>

record 'j json =
  encode :: "'j Message \<Rightarrow> bytes"
  unsupported :: "'j \<Rightarrow> bool"
  decodeMessage :: "bytes \<Rightarrow> 'j Message option"
  decodeSubscription :: "'j data \<Rightarrow> Subscription option"

text \<open>
  \<^verbatim>\<open>json.Marshal(message)\<close>: strings, integers, \<^verbatim>\<open>nil\<close>, a \<^verbatim>\<open>map[string]string\<close> and a
  \<^verbatim>\<open>Subscription\<close> always encode; only an opaque \<^verbatim>\<open>Data\<close> can make it fail.
\<close>

definition Marshal :: "'j json \<Rightarrow> 'j Message \<Rightarrow> bytes option" where
  "Marshal J message =
     (case Data message of
        Opaque x \<Rightarrow> if unsupported J x then None else Some (encode J message)
      | _ \<Rightarrow> Some (encode J message))"

section \<open>Clients and the hub\<close>

text \<open>
  \<^verbatim>\<open>websocket.Conn\<close> as far as \<^verbatim>\<open>readPump\<close> uses it: the read limit, the read deadline
  (\<open>None\<close>: no deadline) and whether the pong handler installed by \<^verbatim>\<open>readPump\<close> is in
  place (the library's default pong handler does nothing).
\<close>

record Conn =
  readLimit :: "nat option"
  readDeadline :: "time option"
  pongRenews :: bool

definition newConn :: Conn where
  "newConn = \<lparr>readLimit = None, readDeadline = None, pongRenews = False\<rparr>"

record Client =
  conn :: Conn
  send :: "bytes chan"
  userID :: string
  clientID :: string
  subscriptions :: "string \<rightharpoonup> bool"

text \<open>
  A \<^verbatim>\<open>*Client\<close> is an address; the hub's \<^verbatim>\<open>clients map[*Client]bool\<close> is keyed by it.
  The state is the hub's map and the store of client objects. Go pointers never dangle;
  an address the handler has not used yet holds a value that nothing reads.
\<close>

type_synonym cref = nat

record state =
  clients :: "cref \<rightharpoonup> bool"
  heap :: "cref \<Rightarrow> Client"

text \<open>\<^verbatim>\<open>fmt.Sprintf("%d", n)\<close>.\<close>

definition digit :: "nat \<Rightarrow> char" where
  "digit d = ''0123456789'' ! d"

fun dec_nat :: "nat \<Rightarrow> string" where
  "dec_nat n =
     (if n < 10 then [digit n]
      else dec_nat (n div 10) @ [digit (n mod 10)])"

declare dec_nat.simps [simp del]

definition dec_int :: "int \<Rightarrow> string" where
  "dec_int i = (if i < 0 then CHR ''-'' # dec_nat (nat (- i)) else dec_nat (nat i))"

definition generateClientID :: "time \<Rightarrow> string" where
  "generateClientID now = ''client_'' @ dec_int now"

definition NewHub :: "cref \<rightharpoonup> bool" where
  "NewHub = Map.empty"

text \<open>
  \<^verbatim>\<open>WebSocketHandler\<close> after a successful upgrade: the new client, which the handler
  then sends on \<^verbatim>\<open>hub.register\<close>. \<open>query\<close> is \<^verbatim>\<open>c.Query("user_id")\<close>.
\<close>

definition newClient :: "string \<Rightarrow> time \<Rightarrow> Client" where
  "newClient query now =
     \<lparr>conn = newConn,
      send = make_chan 256,
      userID = (if query = [] then ''anonymous'' else query),
      clientID = generateClientID now,
      subscriptions = Map.empty\<rparr>"

definition WebSocketHandler :: "cref \<Rightarrow> string \<Rightarrow> time \<Rightarrow> state \<Rightarrow> state" where
  "WebSocketHandler client query now st = st\<lparr>heap := (heap st)(client := newClient query now)\<rparr>"

subsection \<open>Client.SendMessage\<close>

definition SendMessage :: "'j json \<Rightarrow> time \<Rightarrow> 'j Message \<Rightarrow> Client \<Rightarrow> panic + Client" where
  "SendMessage J now message c =
     (let message = message\<lparr>ClientID := clientID c, Timestamp := Unix now\<rparr> in
      case Marshal J message of
        None \<Rightarrow> Inr c
      | Some data \<Rightarrow>
          (case select_send (send c) data of
             Inl p \<Rightarrow> Inl p
           | Inr (Sent ch) \<Rightarrow> Inr (c\<lparr>send := ch\<rparr>)
           | Inr Default \<Rightarrow>
               (case close_chan (send c) of
                  Inl p \<Rightarrow> Inl p
                | Inr ch \<Rightarrow> Inr (c\<lparr>send := ch\<rparr>))))"

text \<open>A method with receiver \<^verbatim>\<open>c *Client\<close> works on the object at that address.\<close>

definition on_client :: "cref \<Rightarrow> (Client \<Rightarrow> panic + Client) \<Rightarrow> state \<Rightarrow> panic + state" where
  "on_client r f st =
     (case f (heap st r) of
        Inl p \<Rightarrow> Inl p
      | Inr c \<Rightarrow> Inr (st\<lparr>heap := (heap st)(r := c)\<rparr>))"

subsection \<open>Hub.Run\<close>

datatype event = Register cref | Unregister cref | BroadcastEv bytes

text \<open>The register case; \<open>t0\<close> and \<open>t1\<close> are its two readings of the clock.\<close>

definition Run_register :: "'j json \<Rightarrow> time \<Rightarrow> time \<Rightarrow> cref \<Rightarrow> state \<Rightarrow> panic + state" where
  "Run_register J t0 t1 client st =
     (let st1 = st\<lparr>clients := (clients st)(client \<mapsto> True)\<rparr>;
          welcomeMsg = Message0\<lparr>Type := ''system'', Action := ''connected'',
                         Data := ClientIdMap (clientID (heap st1 client)),
                         Timestamp := Unix t0\<rparr>
      in on_client client (SendMessage J t1 welcomeMsg) st1)"

text \<open>\<^verbatim>\<open>delete(h.clients, client); close(client.send)\<close>\<close>

definition delete_and_close :: "cref \<Rightarrow> state \<Rightarrow> panic + state" where
  "delete_and_close client st =
     (let st1 = st\<lparr>clients := (clients st)(client := None)\<rparr> in
      case close_chan (send (heap st1 client)) of
        Inl p \<Rightarrow> Inl p
      | Inr ch \<Rightarrow> Inr (st1\<lparr>heap := (heap st1)(client := (heap st1 client)\<lparr>send := ch\<rparr>)\<rparr>))"

definition Run_unregister :: "cref \<Rightarrow> state \<Rightarrow> panic + state" where
  "Run_unregister client st =
     (case clients st client of
        Some ok \<Rightarrow> delete_and_close client st
      | None \<Rightarrow> Inr st)"

text \<open>
  The body shared by the two fan-out loops:
  \<^verbatim>\<open>select { case client.send <- message: default: delete(h.clients, client); close(client.send) }\<close>.
  Beside the state it returns what it did, so that the attempts of a loop can be counted.
\<close>

datatype outcome = Enqueued | Evicted

definition offer :: "bytes \<Rightarrow> cref \<Rightarrow> state \<Rightarrow> panic + ((cref \<times> outcome) list \<times> state)" where
  "offer message client st =
     (case select_send (send (heap st client)) message of
        Inl p \<Rightarrow> Inl p
      | Inr (Sent ch) \<Rightarrow>
          Inr ([(client, Enqueued)], st\<lparr>heap := (heap st)(client := (heap st client)\<lparr>send := ch\<rparr>)\<rparr>)
      | Inr Default \<Rightarrow>
          (case delete_and_close client st of
             Inl p \<Rightarrow> Inl p
           | Inr st' \<Rightarrow> Inr ([(client, Evicted)], st')))"

text \<open>
  \<^verbatim>\<open>for client := range h.clients { body }\<close>. Go leaves the order of a map iteration open:
  \<open>ks\<close> is the order this run takes, an enumeration of the keys present when the loop
  starts. An entry deleted before it is reached is not produced.
\<close>

fun range_clients ::
  "cref list \<Rightarrow> (cref \<Rightarrow> state \<Rightarrow> panic + ((cref \<times> outcome) list \<times> state)) \<Rightarrow> state
    \<Rightarrow> panic + ((cref \<times> outcome) list \<times> state)" where
  "range_clients [] body st = Inr ([], st)"
| "range_clients (k # ks) body st =
     (if clients st k = None then range_clients ks body st
      else case body k st of
        Inl p \<Rightarrow> Inl p
      | Inr (log, st') \<Rightarrow>
          (case range_clients ks body st' of
             Inl p \<Rightarrow> Inl p
           | Inr (log', st'') \<Rightarrow> Inr (log @ log', st'')))"

definition Run_broadcast :: "cref list \<Rightarrow> bytes \<Rightarrow> state \<Rightarrow> panic + ((cref \<times> outcome) list \<times> state)" where
  "Run_broadcast ks message st = range_clients ks (offer message) st"

text \<open>One turn of the \<^verbatim>\<open>for { select { ... } }\<close> loop of \<^verbatim>\<open>Hub.Run\<close>, on the event received.\<close>

fun Run :: "'j json \<Rightarrow> time \<Rightarrow> time \<Rightarrow> cref list \<Rightarrow> event \<Rightarrow> state \<Rightarrow> panic + state" where
  "Run J t0 t1 ks (Register client) st = Run_register J t0 t1 client st"
| "Run J t0 t1 ks (Unregister client) st = Run_unregister client st"
| "Run J t0 t1 ks (BroadcastEv message) st = map_sum id snd (Run_broadcast ks message st)"

subsection \<open>Hub.Broadcast and Hub.BroadcastToSubscribers\<close>

text \<open>\<^verbatim>\<open>Broadcast\<close> encodes the message and sends it on \<^verbatim>\<open>h.broadcast\<close>, or logs and returns.\<close>

definition Broadcast :: "'j json \<Rightarrow> 'j Message \<Rightarrow> event option" where
  "Broadcast J message = map_option BroadcastEv (Marshal J message)"

text \<open>\<^verbatim>\<open>client.subscriptions[subscriptionType]\<close>: a missing key reads as \<^verbatim>\<open>false\<close>.\<close>

definition subscribed :: "Client \<Rightarrow> string \<Rightarrow> bool" where
  "subscribed c topic = (case subscriptions c topic of Some b \<Rightarrow> b | None \<Rightarrow> False)"

definition BroadcastToSubscribers ::
  "'j json \<Rightarrow> cref list \<Rightarrow> string \<Rightarrow> 'j Message \<Rightarrow> state \<Rightarrow> panic + ((cref \<times> outcome) list \<times> state)" where
  "BroadcastToSubscribers J ks subscriptionType message st =
     (case Marshal J message of
        None \<Rightarrow> Inr ([], st)
      | Some data \<Rightarrow>
          range_clients ks
            (\<lambda>client s. if subscribed (heap s client) subscriptionType then offer data client s
                        else Inr ([], s)) st)"

subsection \<open>The read pump and the message handlers\<close>

definition handleSubscription :: "'j json \<Rightarrow> time \<Rightarrow> 'j Message \<Rightarrow> Client \<Rightarrow> panic + Client" where
  "handleSubscription J now message c =
     (case decodeSubscription J (Data message) of
        None \<Rightarrow>
          SendMessage J now (Message0\<lparr>Type := ''error'', Error := ''Invalid subscription format''\<rparr>) c
      | Some subscription \<Rightarrow>
          (let c1 = c\<lparr>subscriptions := (subscriptions c)(subType subscription \<mapsto> True)\<rparr> in
           SendMessage J now
             (Message0\<lparr>Type := ''subscription'', Action := ''subscribed'',
                Data := SubscriptionData subscription\<rparr>) c1))"

definition handleUnsubscription :: "'j json \<Rightarrow> time \<Rightarrow> 'j Message \<Rightarrow> Client \<Rightarrow> panic + Client" where
  "handleUnsubscription J now message c =
     (case decodeSubscription J (Data message) of
        None \<Rightarrow>
          SendMessage J now (Message0\<lparr>Type := ''error'', Error := ''Invalid unsubscription format''\<rparr>) c
      | Some subscription \<Rightarrow>
          (let c1 = c\<lparr>subscriptions := (subscriptions c)(subType subscription := None)\<rparr> in
           SendMessage J now
             (Message0\<lparr>Type := ''subscription'', Action := ''unsubscribed'',
                Data := SubscriptionData subscription\<rparr>) c1))"

definition handleMessage :: "'j json \<Rightarrow> time \<Rightarrow> 'j Message \<Rightarrow> Client \<Rightarrow> panic + Client" where
  "handleMessage J now message c =
     (if Type message = ''subscribe'' then handleSubscription J now message c
      else if Type message = ''unsubscribe'' then handleUnsubscription J now message c
      else if Type message = ''ping'' then
        SendMessage J now (Message0\<lparr>Type := ''pong'', Action := ''ping_response''\<rparr>) c
      else SendMessage J now (Message0\<lparr>Type := ''error'', Error := ''Unknown message type''\<rparr>) c)"

text \<open>
  \<^verbatim>\<open>c.conn.ReadMessage()\<close> is the websocket library's. What the read pump relies on: a
  read deadline is an absolute instant, and a read after it fails; a pong control frame
  runs the pong handler and the read goes on; a ping control frame is answered by the
  library and the read goes on; a close frame, a transport failure and a data frame over
  the read limit make the read fail; any other data frame is returned. \<open>Quiet\<close> is an
  instant at which nothing has arrived.
\<close>

datatype arrival = PongFrame | PingFrame | CloseFrame | DataFrame bytes | Failure | Quiet

datatype reading = Returned "bytes option" | StillReading

definition expired :: "time \<Rightarrow> Conn \<Rightarrow> bool" where
  "expired now cn = (case readDeadline cn of None \<Rightarrow> False | Some d \<Rightarrow> d < now)"

definition over_limit :: "bytes \<Rightarrow> Conn \<Rightarrow> bool" where
  "over_limit b cn = (case readLimit cn of None \<Rightarrow> False | Some n \<Rightarrow> n < length b)"

definition ReadMessage :: "time \<Rightarrow> arrival \<Rightarrow> Conn \<Rightarrow> reading \<times> Conn" where
  "ReadMessage now a cn =
     (if expired now cn then (Returned None, cn)
      else case a of
        PongFrame \<Rightarrow>
          (StillReading, if pongRenews cn then cn\<lparr>readDeadline := Some (now + pongWait)\<rparr> else cn)
      | PingFrame \<Rightarrow> (StillReading, cn)
      | CloseFrame \<Rightarrow> (Returned None, cn)
      | DataFrame b \<Rightarrow> if over_limit b cn then (Returned None, cn) else (Returned (Some b), cn)
      | Failure \<Rightarrow> (Returned None, cn)
      | Quiet \<Rightarrow> (StillReading, cn))"

text \<open>
  The three calls before the loop of \<^verbatim>\<open>readPump\<close>: \<^verbatim>\<open>SetReadLimit(maxMessageSize)\<close>,
  \<^verbatim>\<open>SetReadDeadline(time.Now().Add(pongWait))\<close> and \<^verbatim>\<open>SetPongHandler\<close> with a handler
  that sets the read deadline to \<^verbatim>\<open>time.Now().Add(pongWait)\<close>.
\<close>

definition readPump_setup :: "time \<Rightarrow> Client \<Rightarrow> Client" where
  "readPump_setup now c =
     c\<lparr>conn := (conn c)\<lparr>readLimit := Some maxMessageSize,
                         readDeadline := Some (now + pongWait),
                         pongRenews := True\<rparr>\<rparr>"

text \<open>
  The body of the loop once \<^verbatim>\<open>ReadMessage\<close> has returned (\<open>None\<close>: with an error):
  \<^verbatim>\<open>break\<close>, or answer and go round again.
\<close>

datatype ctl = Continue | Break

definition readPump_body :: "'j json \<Rightarrow> time \<Rightarrow> bytes option \<Rightarrow> Client \<Rightarrow> panic + (ctl \<times> Client)" where
  "readPump_body J now rd c =
     (case rd of
        None \<Rightarrow> Inr (Break, c)
      | Some messageData \<Rightarrow>
          (case decodeMessage J messageData of
             None \<Rightarrow>
               map_sum id (Pair Continue)
                 (SendMessage J now (Message0\<lparr>Type := ''error'', Error := ''Invalid message format''\<rparr>) c)
           | Some message \<Rightarrow> map_sum id (Pair Continue) (handleMessage J now message c)))"

text \<open>
  The loop over what arrives, each arrival with its instant. \<open>Continue\<close> at the end of the
  list: the pump is still in the loop, waiting in \<^verbatim>\<open>ReadMessage\<close>. \<open>Break\<close>: the loop was
  left, and the deferred function sends the client on \<^verbatim>\<open>hub.unregister\<close> and closes the
  connection.
\<close>

fun readPump_loop :: "'j json \<Rightarrow> (time \<times> arrival) list \<Rightarrow> Client \<Rightarrow> panic + (ctl \<times> Client)" where
  "readPump_loop J [] c = Inr (Continue, c)"
| "readPump_loop J ((now, a) # rest) c =
     (case ReadMessage now a (conn c) of
        (StillReading, cn) \<Rightarrow> readPump_loop J rest (c\<lparr>conn := cn\<rparr>)
      | (Returned rd, cn) \<Rightarrow>
          (case readPump_body J now rd (c\<lparr>conn := cn\<rparr>) of
             Inl p \<Rightarrow> Inl p
           | Inr (Break, c') \<Rightarrow> Inr (Break, c')
           | Inr (Continue, c') \<Rightarrow> readPump_loop J rest c'))"

definition readPump :: "'j json \<Rightarrow> time \<Rightarrow> (time \<times> arrival) list \<Rightarrow> Client \<Rightarrow> panic + (ctl \<times> Client)" where
  "readPump J start arrivals c = readPump_loop J arrivals (readPump_setup start c)"

subsection \<open>Runs\<close>

text \<open>Steps of the hub and of the pumps one after the other; a panic ends the run.\<close>

fun steps :: "(state \<Rightarrow> panic + state) list \<Rightarrow> state \<Rightarrow> panic + state" where
  "steps [] st = Inr st"
| "steps (f # fs) st = (case f st of Inl p \<Rightarrow> Inl p | Inr st' \<Rightarrow> steps fs st')"

text \<open>
  A publication: a message taken from \<^verbatim>\<open>h.broadcast\<close> by \<^verbatim>\<open>Hub.Run\<close>, or a call of
  \<^verbatim>\<open>BroadcastToSubscribers\<close>; each with the order its loop takes.
\<close>

datatype 'j publication = Global "cref list" bytes | Topic "cref list" string "'j Message"

fun publish :: "'j json \<Rightarrow> 'j publication \<Rightarrow> state \<Rightarrow> panic + ((cref \<times> outcome) list \<times> state)" where
  "publish J (Global ks message) st = Run_broadcast ks message st"
| "publish J (Topic ks subscriptionType message) st =
     BroadcastToSubscribers J ks subscriptionType message st"

fun order_of :: "'j publication \<Rightarrow> cref list" where
  "order_of (Global ks message) = ks"
| "order_of (Topic ks subscriptionType message) = ks"

fun publish_all :: "'j json \<Rightarrow> 'j publication list \<Rightarrow> state \<Rightarrow> panic + state" where
  "publish_all J [] st = Inr st"
| "publish_all J (p # ps) st =
     (case publish J p st of Inl e \<Rightarrow> Inl e | Inr (log, st') \<Rightarrow> publish_all J ps st')"

text \<open>The order of a loop enumerates the keys of the hub's map, each once.\<close>

definition enumerates :: "cref list \<Rightarrow> state \<Rightarrow> bool" where
  "enumerates ks st = (distinct ks \<and> set ks = dom (clients st))"

fun orders_ok :: "'j json \<Rightarrow> 'j publication list \<Rightarrow> state \<Rightarrow> bool" where
  "orders_ok J [] st = True"
| "orders_ok J (p # ps) st =
     (enumerates (order_of p) st \<and>
      (case publish J p st of Inl e \<Rightarrow> True | Inr (log, st') \<Rightarrow> orders_ok J ps st'))"

subsection \<open>A codec for the concrete runs\<close>

text \<open>
  The theorems below hold for every codec \<open>J\<close>. Their concrete instances are evaluated
  with this small one: the encoding lists the string fields of a message, the empty frame
  does not decode (as in JSON), any other frame decodes to a message of that type, and an
  opaque payload is a subscription.
\<close>

definition J0 :: "Subscription json" where
  "J0 =
     \<lparr>encode = (\<lambda>m. Type m @ '' '' @ Action m @ '' '' @ Error m @ '' '' @ ClientID m),
      unsupported = (\<lambda>x. False),
      decodeMessage = (\<lambda>b. if b = [] then None else Some (Message0\<lparr>Type := b\<rparr>)),
      decodeSubscription = (\<lambda>d. case d of Opaque x \<Rightarrow> Some x | _ \<Rightarrow> None)\<rparr>"

subsection \<open>Vocabulary of the statements\<close>

text \<open>
  What the non-blocking send of a fan-out loop leaves of a client: with room in the queue
  the message is appended; with a full queue the channel is closed (and the loop deletes
  the client from the hub's map).
\<close>

definition has_room :: "Client \<Rightarrow> bool" where
  "has_room c = (length (buf (send c)) < cap (send c))"

definition enqueued :: "bytes \<Rightarrow> Client \<Rightarrow> Client" where
  "enqueued d c = c\<lparr>send := (send c)\<lparr>buf := buf (send c) @ [d]\<rparr>\<rparr>"

definition closed_off :: "Client \<Rightarrow> Client" where
  "closed_off c = c\<lparr>send := (send c)\<lparr>closed := True\<rparr>\<rparr>"

definition after_offer :: "bytes \<Rightarrow> Client \<Rightarrow> Client" where
  "after_offer d c = (if has_room c then enqueued d c else closed_off c)"

text \<open>The body of a fan-out loop that offers the message to the clients \<open>sel\<close> selects.\<close>

definition selective :: "(Client \<Rightarrow> bool) \<Rightarrow> bytes \<Rightarrow> cref \<Rightarrow> state \<Rightarrow> panic + ((cref \<times> outcome) list \<times> state)" where
  "selective sel d = (\<lambda>client s. if sel (heap s client) then offer d client s else Inr ([], s))"

text \<open>The error envelope \<^verbatim>\<open>SendMessage\<close> makes of \<^verbatim>\<open>Message{Type: "error", Error: text}\<close>.\<close>

definition error_reply :: "string \<Rightarrow> Client \<Rightarrow> time \<Rightarrow> 'j Message" where
  "error_reply text c now =
     Message0\<lparr>Type := ''error'', Error := text, ClientID := clientID c, Timestamp := Unix now\<rparr>"

text \<open>
  Keepalive. \<open>in_time d arrivals\<close>: only control frames arrive (or nothing), each no later
  than the deadline then in force, which starts at \<open>d\<close> and moves to the arrival plus
  \<^verbatim>\<open>pongWait\<close> with every pong. \<open>no_pong\<close>: no pong frame arrives.
\<close>

fun in_time :: "time \<Rightarrow> (time \<times> arrival) list \<Rightarrow> bool" where
  "in_time d [] = True"
| "in_time d ((t, PongFrame) # rest) = (t \<le> d \<and> in_time (t + pongWait) rest)"
| "in_time d ((t, PingFrame) # rest) = (t \<le> d \<and> in_time d rest)"
| "in_time d ((t, Quiet) # rest) = (t \<le> d \<and> in_time d rest)"
| "in_time d ((t, a) # rest) = False"

definition no_pong :: "(time \<times> arrival) list \<Rightarrow> bool" where
  "no_pong arrivals = (PongFrame \<notin> snd ` set arrivals)"

text \<open>
  Two clients are alike when they have the same subscription set and their queues are in
  the same condition: as many messages pending, the same capacity, both open or both closed.
\<close>

definition alike :: "Client \<Rightarrow> Client \<Rightarrow> bool" where
  "alike a b =
     (subscriptions a = subscriptions b \<and> closed (send a) = closed (send b)
      \<and> length (buf (send a)) = length (buf (send b)) \<and> cap (send a) = cap (send b))"

subsection \<open>Concrete clients\<close>

text \<open>
  A client whose queue holds 256 undelivered messages, and a hub with a new client at
  address 1 and that slow one at address 2.
\<close>

definition slow_client :: Client where
  "slow_client = (newClient [] 0)\<lparr>send := (make_chan 256)\<lparr>buf := replicate 256 ''x''\<rparr>\<rparr>"

definition two_clients :: state where
  "two_clients = \<lparr>clients = [1 \<mapsto> True, 2 \<mapsto> True], heap = (\<lambda>r. newClient [] 0)(2 := slow_client)\<rparr>"

text \<open>
  A hub with three clients: 1 and the slow client 2 are subscribed to \<open>orders\<close>, 3 is not.
\<close>

definition subscriber :: state where
  "subscriber = \<lparr>clients = [1 \<mapsto> True, 2 \<mapsto> True, 3 \<mapsto> True],
      heap = (\<lambda>r. newClient [] 0)
               (1 := (newClient [] 0)\<lparr>subscriptions := [''orders'' \<mapsto> True]\<rparr>,
                2 := slow_client\<lparr>subscriptions := [''orders'' \<mapsto> True]\<rparr>)\<rparr>"

text \<open>
  Two clients that subscribe to \<open>orders\<close> with different filter lists, their states after
  the acknowledgement, a hub that holds both, two publications and the hub after them.
\<close>

definition req_AAPL :: "Subscription Message" where
  "req_AAPL = Message0\<lparr>Type := ''subscribe'',
     Data := Opaque \<lparr>subType = ''orders'', Instruments = [''AAPL''], AccountIDs = []\<rparr>\<rparr>"

definition req_SBER :: "Subscription Message" where
  "req_SBER = Message0\<lparr>Type := ''subscribe'',
     Data := Opaque \<lparr>subType = ''orders'', Instruments = [''SBER''], AccountIDs = [''acc1'']\<rparr>\<rparr>"

definition ack_AAPL :: Client where
  "ack_AAPL = enqueued ''subscription subscribed  client_17''
                ((newClient [] 17)\<lparr>subscriptions := [''orders'' \<mapsto> True]\<rparr>)"

definition ack_SBER :: Client where
  "ack_SBER = enqueued ''subscription subscribed  client_18''
                ((newClient [] 18)\<lparr>subscriptions := [''orders'' \<mapsto> True]\<rparr>)"

definition two_subscribers :: state where
  "two_subscribers = \<lparr>clients = [1 \<mapsto> True, 2 \<mapsto> True],
                       heap = (\<lambda>r. newClient [] 0)(1 := ack_AAPL, 2 := ack_SBER)\<rparr>"

definition two_publications :: "Subscription publication list" where
  "two_publications =
     [Topic [2, 1] ''orders'' (Message0\<lparr>Type := ''order_update''\<rparr>), Global [1, 2] ''tick'']"

definition two_served :: state where
  "two_served = two_subscribers\<lparr>heap := (\<lambda>r. newClient [] 0)
             (1 := enqueued ''tick'' (enqueued ''order_update   '' ack_AAPL),
              2 := enqueued ''tick'' (enqueued ''order_update   '' ack_SBER))\<rparr>"

section \<open>Unregistering twice\<close>

text \<open>
  C7. Unregister is idempotent: once \<^verbatim>\<open>Hub.Run\<close> has processed an unregister event for a
  client, processing another one for the same client changes nothing: the hub's map, the
  client's channel and every other client are as the first left them.
\<close>

theorem unregister_idempotent:
  assumes "Run_unregister client st = Inr st'"
  shows "Run_unregister client st' = Inr st'"
  using assms
  by (auto simp: Run_unregister_def delete_and_close_def close_chan_def Let_def
           split: option.splits if_splits)

theorem unregister_idempotent_witness:
  "Run_unregister 1 \<lparr>clients = [1 \<mapsto> True], heap = (\<lambda>r. newClient [] 0)\<rparr>
     = Inr \<lparr>clients = Map.empty,
            heap = (\<lambda>r. newClient [] 0)(1 := (newClient [] 0)\<lparr>send := (make_chan 256)\<lparr>closed := True\<rparr>\<rparr>)\<rparr>
   \<and> Run_unregister 1 \<lparr>clients = Map.empty,
            heap = (\<lambda>r. newClient [] 0)(1 := (newClient [] 0)\<lparr>send := (make_chan 256)\<lparr>closed := True\<rparr>\<rparr>)\<rparr>
     = Inr \<lparr>clients = Map.empty,
            heap = (\<lambda>r. newClient [] 0)(1 := (newClient [] 0)\<lparr>send := (make_chan 256)\<lparr>closed := True\<rparr>\<rparr>)\<rparr>"
proof -
  have first: "Run_unregister 1 \<lparr>clients = [1 \<mapsto> True], heap = (\<lambda>r. newClient [] 0)\<rparr>
     = Inr \<lparr>clients = Map.empty,
            heap = (\<lambda>r. newClient [] 0)(1 := (newClient [] 0)\<lparr>send := (make_chan 256)\<lparr>closed := True\<rparr>\<rparr>)\<rparr>"
    by (simp add: Run_unregister_def delete_and_close_def close_chan_def Let_def newClient_def
          make_chan_def)
  from first unregister_idempotent [OF first] show ?thesis by simp
qed

section \<open>What SendMessage puts on the queue\<close>

text \<open>
  C9. Whenever \<^verbatim>\<open>SendMessage\<close> puts something on the client's queue, it is the encoding of
  an envelope whose \<^verbatim>\<open>ClientID\<close> is the client's own identifier and whose \<^verbatim>\<open>Timestamp\<close> is
  the instant of the send in Unix seconds, whatever the caller had set in those two
  fields; \<^verbatim>\<open>Type\<close>, \<^verbatim>\<open>Action\<close>, \<^verbatim>\<open>Data\<close> and \<^verbatim>\<open>Error\<close> are the caller's.
\<close>

theorem SendMessage_stamps:
  assumes "SendMessage J now message c = Inr c'"
    and "buf (send c') \<noteq> buf (send c)"
  shows "\<exists>m. buf (send c') = buf (send c) @ [encode J m] \<and> Marshal J m = Some (encode J m)
           \<and> ClientID m = clientID c \<and> Timestamp m = Unix now
           \<and> Type m = Type message \<and> Action m = Action message
           \<and> Data m = Data message \<and> Error m = Error message"
proof -
  let ?m = "message\<lparr>ClientID := clientID c, Timestamp := Unix now\<rparr>"
  from assms have "buf (send c') = buf (send c) @ [encode J ?m] \<and> Marshal J ?m = Some (encode J ?m)"
    by (auto simp: SendMessage_def Let_def select_send_def close_chan_def Marshal_def
             split: option.splits if_splits data.splits)
  then show ?thesis
    by (intro exI [of _ ?m]) simp
qed

theorem SendMessage_stamps_witness:
  "SendMessage J0 61000000000
       (Message0\<lparr>Type := ''pong'', Action := ''ping_response'', Timestamp := 7, ClientID := ''forged''\<rparr>)
       (newClient [] 17)
     = Inr ((newClient [] 17)\<lparr>send := (make_chan 256)\<lparr>buf := [''pong ping_response  client_17'']\<rparr>\<rparr>)
   \<and> (\<exists>m. [''pong ping_response  client_17''] = [] @ [encode J0 m]
           \<and> ClientID m = ''client_17'' \<and> Timestamp m = 61
           \<and> Type m = ''pong'' \<and> Action m = ''ping_response''
           \<and> Data m = NoData \<and> Error m = [])"
proof -
  let ?msg = "Message0\<lparr>Type := ''pong'', Action := ''ping_response'', Timestamp := 7, ClientID := ''forged''\<rparr>
                :: Subscription Message"
  let ?c' = "(newClient [] 17)\<lparr>send := (make_chan 256)\<lparr>buf := [''pong ping_response  client_17'']\<rparr>\<rparr>"
  have run: "SendMessage J0 61000000000 ?msg (newClient [] 17) = Inr ?c'"
    by (simp add: SendMessage_def Let_def Marshal_def Message0_def J0_def select_send_def
          newClient_def make_chan_def generateClientID_def dec_int_def dec_nat.simps digit_def
          Unix_def)
  have changed: "buf (send ?c') \<noteq> buf (send (newClient [] 17))"
    by (simp add: newClient_def make_chan_def)
  from SendMessage_stamps [OF run changed]
  have "\<exists>m. buf (send ?c') = buf (send (newClient [] 17)) @ [encode J0 m]
           \<and> ClientID m = clientID (newClient [] 17) \<and> Timestamp m = Unix 61000000000
           \<and> Type m = Type ?msg \<and> Action m = Action ?msg
           \<and> Data m = Data ?msg \<and> Error m = Error ?msg"
    by blast
  then have "\<exists>m. [''pong ping_response  client_17''] = [] @ [encode J0 m]
           \<and> ClientID m = ''client_17'' \<and> Timestamp m = 61
           \<and> Type m = ''pong'' \<and> Action m = ''ping_response''
           \<and> Data m = NoData \<and> Error m = []"
    by (simp add: newClient_def make_chan_def generateClientID_def dec_int_def dec_nat.simps
          digit_def Unix_def Message0_def)
  with run show ?thesis by blast
qed

section \<open>The fan-out loops\<close>

lemma offer_Inr:
  assumes "offer d k st = Inr (l, st1)"
  shows "\<not> closed (send (heap st k))"
    and "l = [(k, if has_room (heap st k) then Enqueued else Evicted)]"
    and "heap st1 = (heap st)(k := after_offer d (heap st k))"
    and "clients st1 = (if has_room (heap st k) then clients st else (clients st)(k := None))"
  using assms
  by (auto simp: offer_def select_send_def delete_and_close_def close_chan_def Let_def
        has_room_def after_offer_def enqueued_def closed_off_def split: if_splits)

lemma offer_open:
  assumes "\<not> closed (send (heap st k))"
  shows "\<not> isl (offer d k st)"
proof -
  from assms have "\<not> isl (delete_and_close k st)"
    by (simp add: delete_and_close_def close_chan_def)
  with assms show ?thesis
    by (auto simp: offer_def select_send_def split: sum.splits)
qed

lemma selective_Inr:
  assumes "selective sel d k st = Inr (l, st1)"
  shows "l = (if sel (heap st k) then [(k, if has_room (heap st k) then Enqueued else Evicted)] else [])
       \<and> heap st1 = (if sel (heap st k) then (heap st)(k := after_offer d (heap st k)) else heap st)
       \<and> clients st1 = (if sel (heap st k) \<and> \<not> has_room (heap st k) then (clients st)(k := None) else clients st)"
proof (cases "sel (heap st k)")
  case True
  with assms have o: "offer d k st = Inr (l, st1)" by (simp add: selective_def)
  from True offer_Inr(2-4) [OF o] show ?thesis by simp
next
  case False
  with assms have "l = []" and "st1 = st" by (simp_all add: selective_def)
  with False show ?thesis by simp
qed

lemma range_selective_effect:
  assumes "range_clients ks (selective sel d) st = Inr (log, st')" and "distinct ks"
  shows "log = map (\<lambda>r. (r, if has_room (heap st r) then Enqueued else Evicted))
                 (filter (\<lambda>r. clients st r \<noteq> None \<and> sel (heap st r)) ks)
       \<and> heap st' = (\<lambda>r. if r \<in> set ks \<and> clients st r \<noteq> None \<and> sel (heap st r)
                          then after_offer d (heap st r) else heap st r)
       \<and> clients st' = (\<lambda>r. if r \<in> set ks \<and> clients st r \<noteq> None \<and> sel (heap st r)
                                 \<and> \<not> has_room (heap st r) then None else clients st r)"
  using assms
proof (induction ks arbitrary: st log)
  case Nil
  then show ?case by auto
next
  case (Cons k ks)
  show ?case
  proof (cases "clients st k = None")
    case True
    with Cons.prems have run: "range_clients ks (selective sel d) st = Inr (log, st')" by simp
    from Cons.IH [OF run] Cons.prems(2) True show ?thesis by (auto simp: fun_eq_iff)
  next
    case False
    with Cons.prems obtain l1 st1 l2 where
      b: "selective sel d k st = Inr (l1, st1)" and
      r: "range_clients ks (selective sel d) st1 = Inr (l2, st')" and
      l: "log = l1 @ l2"
      by (auto split: sum.splits)
    note s = selective_Inr [OF b, THEN conjunct1] selective_Inr [OF b, THEN conjunct2, THEN conjunct1] selective_Inr [OF b, THEN conjunct2, THEN conjunct2]
    from Cons.prems(2) have k: "k \<notin> set ks" and d: "distinct ks" by auto
    have same: "\<And>r. r \<in> set ks \<Longrightarrow> heap st1 r = heap st r \<and> clients st1 r = clients st r"
      using s k by auto
    have f: "filter (\<lambda>r. clients st1 r \<noteq> None \<and> sel (heap st1 r)) ks
           = filter (\<lambda>r. clients st r \<noteq> None \<and> sel (heap st r)) ks"
      by (rule filter_cong) (auto simp: same)
    note ih = Cons.IH [OF r d]
    have "log = map (\<lambda>r. (r, if has_room (heap st r) then Enqueued else Evicted))
                 (filter (\<lambda>r. clients st r \<noteq> None \<and> sel (heap st r)) (k # ks))"
      using ih l s(1) False f same by (auto cong: map_cong)
    moreover have "heap st' = (\<lambda>r. if r \<in> set (k # ks) \<and> clients st r \<noteq> None \<and> sel (heap st r)
                          then after_offer d (heap st r) else heap st r)"
      using ih s k False same by (auto simp: fun_eq_iff)
    moreover have "clients st' = (\<lambda>r. if r \<in> set (k # ks) \<and> clients st r \<noteq> None \<and> sel (heap st r)
                                 \<and> \<not> has_room (heap st r) then None else clients st r)"
      using ih s k False same by (auto simp: fun_eq_iff)
    ultimately show ?thesis by blast
  qed
qed

lemma range_selective_open:
  assumes "\<forall>r\<in>set ks. clients st r \<noteq> None \<longrightarrow> sel (heap st r) \<longrightarrow> \<not> closed (send (heap st r))" and "distinct ks"
  shows "\<not> isl (range_clients ks (selective sel d) st)"
  using assms
proof (induction ks arbitrary: st)
  case Nil
  then show ?case by simp
next
  case (Cons k ks)
  show ?case
  proof (cases "clients st k = None")
    case True
    with Cons show ?thesis by simp
  next
    case False
    have "\<not> isl (selective sel d k st)"
      using Cons.prems(1) False offer_open [of st k d] by (auto simp: selective_def)
    then obtain l1 st1 where b: "selective sel d k st = Inr (l1, st1)"
      by (cases "selective sel d k st") auto
    note s = selective_Inr [OF b, THEN conjunct1] selective_Inr [OF b, THEN conjunct2, THEN conjunct1] selective_Inr [OF b, THEN conjunct2, THEN conjunct2]
    from Cons.prems(2) have k: "k \<notin> set ks" and d: "distinct ks" by auto
    have same: "\<And>r. r \<in> set ks \<Longrightarrow> heap st1 r = heap st r \<and> clients st1 r = clients st r"
      using s k by auto
    have "\<not> isl (range_clients ks (selective sel d) st1)"
      by (rule Cons.IH) (use Cons.prems(1) same d in auto)
    with b False show ?thesis by (auto split: sum.splits)
  qed
qed


lemma Run_unregister_registered:
  assumes "clients st r \<noteq> None" and "\<not> closed (send (heap st r))"
  shows "Run_unregister r st =
           Inr (st\<lparr>clients := (clients st)(r := None), heap := (heap st)(r := closed_off (heap st r))\<rparr>)"
  using assms
  by (auto simp: Run_unregister_def delete_and_close_def close_chan_def closed_off_def)

text \<open>
  C2. A message taken from \<^verbatim>\<open>h.broadcast\<close> while N clients are registered, each with its
  channel open: the loop makes exactly N non-blocking attempts, one per registered client,
  in the order of the iteration. A client with room gets the message appended; a client
  whose queue is full is deleted from the map and its channel closed, which is what the
  unregister case does to it; nothing is retried, and what happens to a client depends on
  its own queue only. Clients that are not registered are untouched.
\<close>

theorem broadcast_fan_out:
  assumes "enumerates ks st"
    and "\<forall>r\<in>dom (clients st). \<not> closed (send (heap st r))"
  shows "\<exists>log st'. Run_broadcast ks message st = Inr (log, st')
           \<and> map fst log = ks \<and> length log = card (dom (clients st))
           \<and> (\<forall>r\<in>dom (clients st).
                 if has_room (heap st r)
                 then (r, Enqueued) \<in> set log \<and> heap st' r = enqueued message (heap st r)
                      \<and> clients st' r = clients st r
                 else (r, Evicted) \<in> set log \<and> heap st' r = closed_off (heap st r)
                      \<and> clients st' r = None
                      \<and> (\<exists>u. Run_unregister r st = Inr u \<and> heap u r = heap st' r
                               \<and> clients u r = clients st' r))
           \<and> (\<forall>r. r \<notin> dom (clients st) \<longrightarrow> heap st' r = heap st r \<and> clients st' r = clients st r)"
proof -
  from assms(1) have dist: "distinct ks" and keys: "set ks = dom (clients st)"
    by (simp_all add: enumerates_def)
  have body: "offer message = selective (\<lambda>c. True) message"
    by (simp add: selective_def fun_eq_iff)
  have "\<not> isl (range_clients ks (selective (\<lambda>c. True) message) st)"
    by (rule range_selective_open) (use assms(2) dist keys in auto)
  then obtain log st' where run: "range_clients ks (selective (\<lambda>c. True) message) st = Inr (log, st')"
    by (cases "range_clients ks (selective (\<lambda>c. True) message) st") auto
  note eff = range_selective_effect [OF run dist]
  have all: "filter (\<lambda>r. clients st r \<noteq> None \<and> True) ks = ks"
    using keys by (auto simp: filter_id_conv)
  have log: "log = map (\<lambda>r. (r, if has_room (heap st r) then Enqueued else Evicted)) ks"
    using eff all by simp
  have hp: "\<And>r. heap st' r = (if r \<in> dom (clients st) then after_offer message (heap st r) else heap st r)"
    using eff keys by (auto simp: fun_eq_iff)
  have cl: "\<And>r. clients st' r = (if r \<in> dom (clients st) \<and> \<not> has_room (heap st r) then None else clients st r)"
    using eff keys by (auto simp: fun_eq_iff)
  have 1: "Run_broadcast ks message st = Inr (log, st')"
    using run body by (simp add: Run_broadcast_def)
  have 2: "map fst log = ks" using log by (simp add: comp_def)
  have 3: "length log = card (dom (clients st))"
    using log dist keys distinct_card [of ks] by simp
  have 4: "\<forall>r\<in>dom (clients st).
                 if has_room (heap st r)
                 then (r, Enqueued) \<in> set log \<and> heap st' r = enqueued message (heap st r)
                      \<and> clients st' r = clients st r
                 else (r, Evicted) \<in> set log \<and> heap st' r = closed_off (heap st r)
                      \<and> clients st' r = None
                      \<and> (\<exists>u. Run_unregister r st = Inr u \<and> heap u r = heap st' r
                               \<and> clients u r = clients st' r)"
  proof
    fix r assume r: "r \<in> dom (clients st)"
    then have rk: "r \<in> set ks" using keys by simp
    show "if has_room (heap st r)
                 then (r, Enqueued) \<in> set log \<and> heap st' r = enqueued message (heap st r)
                      \<and> clients st' r = clients st r
                 else (r, Evicted) \<in> set log \<and> heap st' r = closed_off (heap st r)
                      \<and> clients st' r = None
                      \<and> (\<exists>u. Run_unregister r st = Inr u \<and> heap u r = heap st' r
                               \<and> clients u r = clients st' r)"
    proof (cases "has_room (heap st r)")
      case True
      with r rk show ?thesis by (simp add: hp cl log after_offer_def image_iff)
    next
      case False
      from r assms(2) have "clients st r \<noteq> None" and "\<not> closed (send (heap st r))" by auto
      note u = Run_unregister_registered [OF this]
      have "(r, Evicted) \<in> set log" using False rk by (simp add: log image_iff)
      moreover have "heap st' r = closed_off (heap st r)" using False r by (simp add: hp after_offer_def)
      moreover have "clients st' r = None" using False r by (simp add: cl)
      ultimately show ?thesis using False u by simp
    qed
  qed
  have 5: "\<forall>r. r \<notin> dom (clients st) \<longrightarrow> heap st' r = heap st r \<and> clients st' r = clients st r"
    by (simp add: hp cl)
  from 1 2 3 4 5 show ?thesis by blast
qed


lemma two_clients_simps:
  "enumerates [2, 1] two_clients"
  "dom (clients two_clients) = {1, 2}"
  "has_room (heap two_clients 1)"
  "\<not> has_room (heap two_clients 2)"
  "\<not> closed (send (heap two_clients 1))"
  "\<not> closed (send (heap two_clients 2))"
  by (auto simp: two_clients_def enumerates_def has_room_def slow_client_def newClient_def make_chan_def)

theorem broadcast_fan_out_witness:
  "enumerates [2, 1] two_clients
   \<and> \<not> closed (send (heap two_clients 1)) \<and> \<not> closed (send (heap two_clients 2))
   \<and> (\<exists>log st'. Run_broadcast [2, 1] ''m'' two_clients = Inr (log, st')
          \<and> map fst log = [2, 1] \<and> length log = 2
          \<and> (1, Enqueued) \<in> set log \<and> heap st' 1 = enqueued ''m'' (newClient [] 0)
          \<and> clients st' 1 = Some True
          \<and> (2, Evicted) \<in> set log \<and> heap st' 2 = closed_off slow_client
          \<and> clients st' 2 = None)"
proof -
  have open_all: "\<forall>r\<in>dom (clients two_clients). \<not> closed (send (heap two_clients r))"
    using two_clients_simps(2) two_clients_simps(5) two_clients_simps(6) by simp
  from broadcast_fan_out [OF two_clients_simps(1) open_all, of "''m''"]
  obtain log st' where run: "Run_broadcast [2, 1] ''m'' two_clients = Inr (log, st')"
    and ks: "map fst log = [2, 1]" and n: "length log = card (dom (clients two_clients))"
    and each: "\<forall>r\<in>dom (clients two_clients).
                 if has_room (heap two_clients r)
                 then (r, Enqueued) \<in> set log \<and> heap st' r = enqueued ''m'' (heap two_clients r)
                      \<and> clients st' r = clients two_clients r
                 else (r, Evicted) \<in> set log \<and> heap st' r = closed_off (heap two_clients r)
                      \<and> clients st' r = None
                      \<and> (\<exists>u. Run_unregister r two_clients = Inr u \<and> heap u r = heap st' r
                               \<and> clients u r = clients st' r)"
    by (elim exE conjE) (rule that)
  from each have "(1, Enqueued) \<in> set log \<and> heap st' 1 = enqueued ''m'' (heap two_clients 1)
                      \<and> clients st' 1 = clients two_clients 1"
    using two_clients_simps(2) two_clients_simps(3) by simp
  then have c1: "(1, Enqueued) \<in> set log \<and> heap st' 1 = enqueued ''m'' (newClient [] 0)
                      \<and> clients st' 1 = Some True"
    by (simp add: two_clients_def)
  from each have "(2, Evicted) \<in> set log \<and> heap st' 2 = closed_off (heap two_clients 2)
                      \<and> clients st' 2 = None"
    using two_clients_simps(2) two_clients_simps(4) by simp
  then have c2: "(2, Evicted) \<in> set log \<and> heap st' 2 = closed_off slow_client \<and> clients st' 2 = None"
    by (simp add: two_clients_def)
  from n have n2: "length log = 2" by (simp add: two_clients_simps(2))
  from run ks n2 c1 c2
  have "\<exists>log st'. Run_broadcast [2, 1] ''m'' two_clients = Inr (log, st')
          \<and> map fst log = [2, 1] \<and> length log = 2
          \<and> (1, Enqueued) \<in> set log \<and> heap st' 1 = enqueued ''m'' (newClient [] 0)
          \<and> clients st' 1 = Some True
          \<and> (2, Evicted) \<in> set log \<and> heap st' 2 = closed_off slow_client
          \<and> clients st' 2 = None"
    by (intro exI [of _ log] exI [of _ st']) simp
  with two_clients_simps(1) two_clients_simps(5) two_clients_simps(6) show ?thesis
    by (intro conjI)
qed


text \<open>
  C5, as the code has it. \<^verbatim>\<open>BroadcastToSubscribers(topic, m)\<close>, for a message that encodes
  to \<open>d\<close>, makes one non-blocking attempt for exactly the registered clients whose
  subscription set holds the topic: such a client with room in its queue gets \<open>d\<close>
  appended, and one whose queue is full is deleted from the hub's map and its channel
  closed instead, so it does not get \<open>d\<close>. A client that is not subscribed to the topic, or
  not registered, is untouched. (The subscribed clients' channels are open.)
\<close>

theorem topic_fan_out:
  assumes "enumerates ks st"
    and "\<forall>r\<in>dom (clients st). subscribed (heap st r) topic \<longrightarrow> \<not> closed (send (heap st r))"
    and "Marshal J message = Some d"
  shows "\<exists>log st'. BroadcastToSubscribers J ks topic message st = Inr (log, st')
           \<and> map fst log = filter (\<lambda>r. subscribed (heap st r) topic) ks
           \<and> (\<forall>r\<in>dom (clients st).
                 if subscribed (heap st r) topic
                 then (if has_room (heap st r)
                       then (r, Enqueued) \<in> set log \<and> heap st' r = enqueued d (heap st r)
                            \<and> clients st' r = clients st r
                       else (r, Evicted) \<in> set log \<and> heap st' r = closed_off (heap st r)
                            \<and> clients st' r = None)
                 else heap st' r = heap st r \<and> clients st' r = clients st r)
           \<and> (\<forall>r. r \<notin> dom (clients st) \<longrightarrow> heap st' r = heap st r \<and> clients st' r = clients st r)"
proof -
  let ?sel = "\<lambda>c. subscribed c topic"
  from assms(1) have dist: "distinct ks" and keys: "set ks = dom (clients st)"
    by (simp_all add: enumerates_def)
  have body: "BroadcastToSubscribers J ks topic message st = range_clients ks (selective ?sel d) st"
    using assms(3) by (simp add: BroadcastToSubscribers_def selective_def)
  have "\<not> isl (range_clients ks (selective ?sel d) st)"
    by (rule range_selective_open) (use assms(2) dist keys in auto)
  then obtain log st' where run: "range_clients ks (selective ?sel d) st = Inr (log, st')"
    by (cases "range_clients ks (selective ?sel d) st") auto
  note eff = range_selective_effect [OF run dist]
  have sel: "filter (\<lambda>r. clients st r \<noteq> None \<and> subscribed (heap st r) topic) ks
               = filter (\<lambda>r. subscribed (heap st r) topic) ks"
    by (rule filter_cong) (use keys in auto)
  have log: "log = map (\<lambda>r. (r, if has_room (heap st r) then Enqueued else Evicted))
                     (filter (\<lambda>r. subscribed (heap st r) topic) ks)"
    using eff sel by simp
  have hp: "\<And>r. heap st' r = (if r \<in> dom (clients st) \<and> subscribed (heap st r) topic
                               then after_offer d (heap st r) else heap st r)"
    using eff keys by (auto simp: fun_eq_iff)
  have cl: "\<And>r. clients st' r = (if r \<in> dom (clients st) \<and> subscribed (heap st r) topic
                                     \<and> \<not> has_room (heap st r) then None else clients st r)"
    using eff keys by (auto simp: fun_eq_iff)
  have 1: "BroadcastToSubscribers J ks topic message st = Inr (log, st')"
    using run body by simp
  have 2: "map fst log = filter (\<lambda>r. subscribed (heap st r) topic) ks"
    using log by (simp add: comp_def)
  have 3: "\<forall>r\<in>dom (clients st).
                 if subscribed (heap st r) topic
                 then (if has_room (heap st r)
                       then (r, Enqueued) \<in> set log \<and> heap st' r = enqueued d (heap st r)
                            \<and> clients st' r = clients st r
                       else (r, Evicted) \<in> set log \<and> heap st' r = closed_off (heap st r)
                            \<and> clients st' r = None)
                 else heap st' r = heap st r \<and> clients st' r = clients st r"
  proof
    fix r assume r: "r \<in> dom (clients st)"
    then have rk: "r \<in> set ks" using keys by simp
    with r show "if subscribed (heap st r) topic
                 then (if has_room (heap st r)
                       then (r, Enqueued) \<in> set log \<and> heap st' r = enqueued d (heap st r)
                            \<and> clients st' r = clients st r
                       else (r, Evicted) \<in> set log \<and> heap st' r = closed_off (heap st r)
                            \<and> clients st' r = None)
                 else heap st' r = heap st r \<and> clients st' r = clients st r"
      by (simp add: hp cl log after_offer_def image_iff)
  qed
  have 4: "\<forall>r. r \<notin> dom (clients st) \<longrightarrow> heap st' r = heap st r \<and> clients st' r = clients st r"
    by (simp add: hp cl)
  from 1 2 3 4 show ?thesis by (intro exI [of _ log] exI [of _ st']) simp
qed

lemma subscriber_simps:
  "enumerates [3, 2, 1] subscriber"
  "dom (clients subscriber) = {1, 2, 3}"
  "subscribed (heap subscriber 1) ''orders''"
  "subscribed (heap subscriber 2) ''orders''"
  "\<not> subscribed (heap subscriber 3) ''orders''"
  "has_room (heap subscriber 1)"
  "\<not> has_room (heap subscriber 2)"
  "\<not> closed (send (heap subscriber 1))"
  "\<not> closed (send (heap subscriber 2))"
  by (auto simp: subscriber_def enumerates_def has_room_def slow_client_def newClient_def
        make_chan_def subscribed_def)

text \<open>
  The claim as stated fails for a subscriber whose queue is full: client 2 is registered
  and subscribed to \<open>orders\<close>, and the message is not put on its queue.
\<close>

theorem topic_fan_out_counterexample:
  "clients subscriber 2 = Some True \<and> subscribed (heap subscriber 2) ''orders''
   \<and> (\<exists>log st'. BroadcastToSubscribers J0 [3, 2, 1] ''orders'' (Message0\<lparr>Type := ''order_update''\<rparr>)
                    subscriber = Inr (log, st')
         \<and> log = [(2, Evicted), (1, Enqueued)]
         \<and> clients st' 2 = None
         \<and> closed (send (heap st' 2))
         \<and> buf (send (heap st' 2)) = replicate 256 ''x''
         \<and> encode J0 (Message0\<lparr>Type := ''order_update''\<rparr>) \<notin> set (buf (send (heap st' 2))))"
  by (simp add: subscriber_def BroadcastToSubscribers_def Marshal_def Message0_def J0_def
        subscribed_def slow_client_def newClient_def make_chan_def offer_def select_send_def
        delete_and_close_def close_chan_def)

theorem topic_fan_out_witness:
  "enumerates [3, 2, 1] subscriber
   \<and> \<not> closed (send (heap subscriber 1)) \<and> \<not> closed (send (heap subscriber 2))
   \<and> Marshal J0 (Message0\<lparr>Type := ''order_update''\<rparr>) = Some ''order_update   ''
   \<and> (\<exists>log st'. BroadcastToSubscribers J0 [3, 2, 1] ''orders'' (Message0\<lparr>Type := ''order_update''\<rparr>)
                    subscriber = Inr (log, st')
          \<and> map fst log = [2, 1]
          \<and> (1, Enqueued) \<in> set log \<and> heap st' 1 = enqueued ''order_update   '' (heap subscriber 1)
          \<and> clients st' 1 = Some True
          \<and> (2, Evicted) \<in> set log \<and> heap st' 2 = closed_off (heap subscriber 2)
          \<and> clients st' 2 = None
          \<and> heap st' 3 = heap subscriber 3 \<and> clients st' 3 = Some True)"
proof -
  let ?m = "Message0\<lparr>Type := ''order_update''\<rparr> :: Subscription Message"
  have open_all: "\<forall>r\<in>dom (clients subscriber).
      subscribed (heap subscriber r) ''orders'' \<longrightarrow> \<not> closed (send (heap subscriber r))"
    using subscriber_simps(2) subscriber_simps(8) subscriber_simps(9) subscriber_simps(5) by simp
  have enc: "Marshal J0 ?m = Some ''order_update   ''"
    by (simp add: Marshal_def Message0_def J0_def)
  from topic_fan_out [OF subscriber_simps(1) open_all enc]
  obtain log st' where
    run: "BroadcastToSubscribers J0 [3, 2, 1] ''orders'' ?m subscriber = Inr (log, st')"
    and ks: "map fst log = filter (\<lambda>r. subscribed (heap subscriber r) ''orders'') [3, 2, 1]"
    and each: "\<forall>r\<in>dom (clients subscriber).
                 if subscribed (heap subscriber r) ''orders''
                 then (if has_room (heap subscriber r)
                       then (r, Enqueued) \<in> set log \<and> heap st' r = enqueued ''order_update   '' (heap subscriber r)
                            \<and> clients st' r = clients subscriber r
                       else (r, Evicted) \<in> set log \<and> heap st' r = closed_off (heap subscriber r)
                            \<and> clients st' r = None)
                 else heap st' r = heap subscriber r \<and> clients st' r = clients subscriber r"
    by (elim exE conjE) (rule that)
  from ks have ks': "map fst log = [2, 1]"
    using subscriber_simps(3) subscriber_simps(4) subscriber_simps(5) by simp
  from each have "(1, Enqueued) \<in> set log \<and> heap st' 1 = enqueued ''order_update   '' (heap subscriber 1)
                      \<and> clients st' 1 = clients subscriber 1"
    using subscriber_simps(2) subscriber_simps(3) subscriber_simps(6) by simp
  then have c1: "(1, Enqueued) \<in> set log \<and> heap st' 1 = enqueued ''order_update   '' (heap subscriber 1)
                      \<and> clients st' 1 = Some True"
    by (simp add: subscriber_def)
  from each have c2: "(2, Evicted) \<in> set log \<and> heap st' 2 = closed_off (heap subscriber 2)
                      \<and> clients st' 2 = None"
    using subscriber_simps(2) subscriber_simps(4) subscriber_simps(7) by simp
  from each have "heap st' 3 = heap subscriber 3 \<and> clients st' 3 = clients subscriber 3"
    using subscriber_simps(2) subscriber_simps(5) by simp
  then have c3: "heap st' 3 = heap subscriber 3 \<and> clients st' 3 = Some True"
    by (simp add: subscriber_def)
  from run ks' c1 c2 c3
  have "\<exists>log st'. BroadcastToSubscribers J0 [3, 2, 1] ''orders'' ?m subscriber = Inr (log, st')
          \<and> map fst log = [2, 1]
          \<and> (1, Enqueued) \<in> set log \<and> heap st' 1 = enqueued ''order_update   '' (heap subscriber 1)
          \<and> clients st' 1 = Some True
          \<and> (2, Evicted) \<in> set log \<and> heap st' 2 = closed_off (heap subscriber 2)
          \<and> clients st' 2 = None
          \<and> heap st' 3 = heap subscriber 3 \<and> clients st' 3 = Some True"
    by (intro exI [of _ log] exI [of _ st']) simp
  with subscriber_simps(1) subscriber_simps(8) subscriber_simps(9) enc show ?thesis
    by (intro conjI)
qed


section \<open>Registration\<close>

lemma generateClientID_nonempty: "generateClientID now \<noteq> []"
  by (simp add: generateClientID_def)

lemma Marshal_plain:
  assumes "\<forall>x. Data m \<noteq> Opaque x"
  shows "Marshal J m = Some (encode J m)"
  using assms by (cases "Data m") (auto simp: Marshal_def)

lemma SendMessage_plain:
  assumes "\<forall>x. Data m \<noteq> Opaque x" and "\<not> closed (send c)"
  shows "SendMessage J now m c
           = Inr (after_offer (encode J (m\<lparr>ClientID := clientID c, Timestamp := Unix now\<rparr>)) c)"
proof -
  have "Marshal J (m\<lparr>ClientID := clientID c, Timestamp := Unix now\<rparr>)
          = Some (encode J (m\<lparr>ClientID := clientID c, Timestamp := Unix now\<rparr>))"
    by (rule Marshal_plain) (use assms(1) in simp)
  with assms(2) show ?thesis
    by (simp add: SendMessage_def Let_def select_send_def close_chan_def after_offer_def
          has_room_def enqueued_def closed_off_def)
qed

text \<open>
  C8. Processing the registration event of a client the handler has made adds the client
  to the hub's map and puts on that client's own queue, and on no other, the encoding of
  a welcome envelope: type \<open>system\<close>, action \<open>connected\<close>, the client's identifier as
  payload and as \<^verbatim>\<open>ClientID\<close>; the identifier is the one \<^verbatim>\<open>generateClientID\<close> assigned and
  is not empty.
\<close>

theorem register_welcome:
  "\<exists>m. Run_register J t0 t1 client (WebSocketHandler client query born st)
          = Inr (st\<lparr>clients := (clients st)(client \<mapsto> True),
                     heap := (heap st)(client := enqueued (encode J m) (newClient query born))\<rparr>)
       \<and> Type m = ''system'' \<and> Action m = ''connected''
       \<and> Data m = ClientIdMap (clientID (newClient query born))
       \<and> ClientID m = clientID (newClient query born)
       \<and> clientID (newClient query born) = generateClientID born
       \<and> generateClientID born \<noteq> []
       \<and> Error m = [] \<and> Timestamp m = Unix t1"
proof -
  let ?c = "newClient query born"
  let ?w = "Message0\<lparr>Type := ''system'', Action := ''connected'',
              Data := ClientIdMap (clientID ?c), Timestamp := Unix t0\<rparr> :: 'a Message"
  let ?m = "?w\<lparr>ClientID := clientID ?c, Timestamp := Unix t1\<rparr>"
  have op: "\<not> closed (send ?c)" and room: "has_room ?c"
    by (simp_all add: newClient_def make_chan_def has_room_def)
  have "SendMessage J t1 ?w ?c = Inr (after_offer (encode J ?m) ?c)"
    by (rule SendMessage_plain) (use op in \<open>simp_all add: Message0_def\<close>)
  with room have snd: "SendMessage J t1 ?w ?c = Inr (enqueued (encode J ?m) ?c)"
    by (simp add: after_offer_def)
  have "Run_register J t0 t1 client (WebSocketHandler client query born st)
          = Inr (st\<lparr>clients := (clients st)(client \<mapsto> True),
                     heap := (heap st)(client := enqueued (encode J ?m) ?c)\<rparr>)"
    using snd by (simp add: Run_register_def WebSocketHandler_def on_client_def Let_def)
  moreover have "Type ?m = ''system'' \<and> Action ?m = ''connected''
       \<and> Data ?m = ClientIdMap (clientID ?c) \<and> ClientID ?m = clientID ?c
       \<and> Error ?m = [] \<and> Timestamp ?m = Unix t1"
    by (simp add: Message0_def)
  moreover have "clientID ?c = generateClientID born" by (simp add: newClient_def)
  ultimately show ?thesis
    using generateClientID_nonempty [of born] by (intro exI [of _ ?m]) simp
qed

section \<open>Bad frames\<close>

lemma SendMessage_error:
  assumes "\<not> closed (send c)"
  shows "SendMessage J now (Message0\<lparr>Type := ''error'', Error := text\<rparr>) c
           = Inr (after_offer (encode J (error_reply text c now)) c)"
proof -
  have "SendMessage J now (Message0\<lparr>Type := ''error'', Error := text\<rparr>) c
          = Inr (after_offer (encode J ((Message0\<lparr>Type := ''error'', Error := text\<rparr>)
                   \<lparr>ClientID := clientID c, Timestamp := Unix now\<rparr>)) c)"
    by (rule SendMessage_plain) (use assms in \<open>simp_all add: Message0_def\<close>)
  then show ?thesis by (simp add: error_reply_def)
qed

text \<open>
  C6, as the code has it. For a frame that does not decode, and for a decoded envelope
  whose type is none of subscribe, unsubscribe and ping, the read loop goes on to the
  next read and the subscription set is unchanged; the client is sent the error envelope
  (\<open>Invalid message format\<close>, \<open>Unknown message type\<close>) when its queue has room, and when the
  queue is full \<^verbatim>\<open>SendMessage\<close> closes the client's channel instead and no error envelope
  is queued. (The client's channel is open when the frame arrives.)
\<close>

theorem bad_frame_answered:
  assumes "\<not> closed (send c)"
    and "decodeMessage J messageData = None \<and> text = ''Invalid message format''
         \<or> (\<exists>message. decodeMessage J messageData = Some message
               \<and> Type message \<noteq> ''subscribe'' \<and> Type message \<noteq> ''unsubscribe''
               \<and> Type message \<noteq> ''ping'' \<and> text = ''Unknown message type'')"
  shows "readPump_body J now (Some messageData) c
           = Inr (Continue, if has_room c then enqueued (encode J (error_reply text c now)) c
                            else closed_off c)
       \<and> subscriptions (enqueued (encode J (error_reply text c now)) c) = subscriptions c
       \<and> subscriptions (closed_off c) = subscriptions c
       \<and> Type (error_reply text c now :: 'j Message) = ''error''
       \<and> Error (error_reply text c now :: 'j Message) = text"
proof -
  have "readPump_body J now (Some messageData) c
          = map_sum id (Pair Continue) (SendMessage J now (Message0\<lparr>Type := ''error'', Error := text\<rparr>) c)"
    using assms(2) by (auto simp: readPump_body_def handleMessage_def)
  then have "readPump_body J now (Some messageData) c
           = Inr (Continue, after_offer (encode J (error_reply text c now)) c)"
    by (simp add: SendMessage_error [OF assms(1)])
  then show ?thesis
    by (simp add: after_offer_def enqueued_def closed_off_def error_reply_def Message0_def)
qed

text \<open>
  The claim as stated fails for a client whose queue is full: the frame does not decode,
  nothing is put on the queue, and the channel the write pump lives on is closed.
\<close>

theorem bad_frame_answered_counterexample:
  "\<not> closed (send slow_client) \<and> decodeMessage J0 [] = None
   \<and> readPump_body J0 0 (Some []) slow_client = Inr (Continue, closed_off slow_client)
   \<and> buf (send (closed_off slow_client)) = buf (send slow_client)
   \<and> closed (send (closed_off slow_client))"
  by (simp add: readPump_body_def J0_def SendMessage_def Marshal_def Message0_def Let_def
        select_send_def close_chan_def slow_client_def newClient_def make_chan_def
        closed_off_def)

theorem bad_frame_answered_witness:
  "\<not> closed (send (newClient [] 17)) \<and> decodeMessage J0 [] = None
   \<and> readPump_body J0 61000000000 (Some []) (newClient [] 17)
       = Inr (Continue, enqueued ''error  Invalid message format client_17'' (newClient [] 17))
   \<and> \<not> closed (send slow_client)
   \<and> decodeMessage J0 ''order'' = Some (Message0\<lparr>Type := ''order''\<rparr>)
   \<and> readPump_body J0 61000000000 (Some ''order'') slow_client = Inr (Continue, closed_off slow_client)"
proof -
  have o1: "\<not> closed (send (newClient [] 17))" and r1: "has_room (newClient [] 17)"
    by (simp_all add: newClient_def make_chan_def has_room_def)
  have d1: "decodeMessage J0 [] = None" by (simp add: J0_def)
  have e1: "encode J0 (error_reply ''Invalid message format'' (newClient [] 17) 61000000000)
              = ''error  Invalid message format client_17''"
    by (simp add: J0_def error_reply_def Message0_def newClient_def generateClientID_def
          dec_int_def dec_nat.simps digit_def)
  have o2: "\<not> closed (send slow_client)" and r2: "\<not> has_room slow_client"
    by (simp_all add: slow_client_def newClient_def make_chan_def has_room_def)
  have d2: "decodeMessage J0 ''order'' = Some (Message0\<lparr>Type := ''order''\<rparr>)"
    by (simp add: J0_def)
  have b1: "decodeMessage J0 [] = None \<and> ''Invalid message format'' = ''Invalid message format''
         \<or> (\<exists>message. decodeMessage J0 [] = Some message
               \<and> Type message \<noteq> ''subscribe'' \<and> Type message \<noteq> ''unsubscribe''
               \<and> Type message \<noteq> ''ping'' \<and> ''Invalid message format'' = ''Unknown message type'')"
    using d1 by simp
  have b2: "decodeMessage J0 ''order'' = None \<and> ''Unknown message type'' = ''Invalid message format''
         \<or> (\<exists>message. decodeMessage J0 ''order'' = Some message
               \<and> Type message \<noteq> ''subscribe'' \<and> Type message \<noteq> ''unsubscribe''
               \<and> Type message \<noteq> ''ping'' \<and> ''Unknown message type'' = ''Unknown message type'')"
    using d2 by (simp add: Message0_def)
  note bad_frame_answered [OF o1 b1, of 61000000000, THEN conjunct1]
  with r1 e1
  have w1: "readPump_body J0 61000000000 (Some []) (newClient [] 17)
       = Inr (Continue, enqueued ''error  Invalid message format client_17'' (newClient [] 17))"
    by simp
  note bad_frame_answered [OF o2 b2, of 61000000000, THEN conjunct1]
  with r2
  have w2: "readPump_body J0 61000000000 (Some ''order'') slow_client = Inr (Continue, closed_off slow_client)"
    by simp
  from o1 d1 w1 o2 d2 w2 show ?thesis by (intro conjI)
qed

section \<open>Keepalive\<close>

lemma SendMessage_conn:
  "SendMessage J now m c = Inr c' \<Longrightarrow> conn c' = conn c"
  by (auto simp: SendMessage_def Let_def select_send_def close_chan_def
        split: option.splits sum.splits select_send.splits if_splits)

lemma handleMessage_conn:
  "handleMessage J now m c = Inr c' \<Longrightarrow> conn c' = conn c"
  by (auto simp: handleMessage_def handleSubscription_def handleUnsubscription_def Let_def
        split: if_splits option.splits dest!: SendMessage_conn)

lemma map_sum_Continue:
  "map_sum id (Pair Continue) x = Inr (k, c') \<longleftrightarrow> k = Continue \<and> x = Inr c'"
  by (cases x) auto

lemma readPump_body_conn:
  "readPump_body J now rd c = Inr (k, c') \<Longrightarrow> conn c' = conn c"
  by (auto simp: readPump_body_def map_sum_Continue split: option.splits
        dest: SendMessage_conn handleMessage_conn)

lemma ReadMessage_no_pong:
  "a \<noteq> PongFrame \<Longrightarrow> ReadMessage now a cn = (r, cn') \<Longrightarrow> cn' = cn"
  by (cases a) (auto simp: ReadMessage_def split: if_splits)

lemma ReadMessage_late:
  "readDeadline cn = Some d \<Longrightarrow> d < now \<Longrightarrow> ReadMessage now a cn = (Returned None, cn)"
  by (simp add: ReadMessage_def expired_def)

lemma loop_no_pong:
  assumes "readPump_loop J arrivals c = Inr (k, c')" and "no_pong arrivals"
    and "readDeadline (conn c) = Some d"
  shows "readDeadline (conn c') = Some d \<and> (k = Continue \<longrightarrow> (\<forall>(t, a)\<in>set arrivals. t \<le> d))"
  using assms
proof (induction arrivals arbitrary: c)
  case Nil
  then show ?case by simp
next
  case (Cons x arrivals)
  obtain now a where x: "x = (now, a)" by (cases x)
  from Cons.prems(2) x have np: "a \<noteq> PongFrame" and np': "no_pong arrivals"
    by (auto simp: no_pong_def)
  obtain r cn where rm: "ReadMessage now a (conn c) = (r, cn)" by (cases "ReadMessage now a (conn c)")
  from ReadMessage_no_pong [OF np rm] have cn: "cn = conn c" .
  show ?case
  proof (cases "d < now")
    case True
    from ReadMessage_late [OF Cons.prems(3) True] rm have "r = Returned None" by simp
    with Cons.prems(1) x rm cn have "k = Break" and "c' = c"
      by (simp_all add: readPump_body_def)
    with Cons.prems(3) show ?thesis by simp
  next
    case False
    show ?thesis
    proof (cases r)
      case StillReading
      with Cons.prems(1) x rm cn have run: "readPump_loop J arrivals c = Inr (k, c')" by simp
      from Cons.IH [OF run np' Cons.prems(3)] False x show ?thesis by simp
    next
      case (Returned rd)
      with Cons.prems(1) x rm cn consider
        (brk) c1 where "readPump_body J now rd c = Inr (Break, c1)" "k = Break" "c' = c1"
        | (cont) c1 where "readPump_body J now rd c = Inr (Continue, c1)"
            "readPump_loop J arrivals c1 = Inr (k, c')"
        by (auto split: sum.splits ctl.splits)
      then show ?thesis
      proof cases
        case brk
        with readPump_body_conn [OF brk(1)] Cons.prems(3) show ?thesis by simp
      next
        case cont
        from readPump_body_conn [OF cont(1)] Cons.prems(3)
        have "readDeadline (conn c1) = Some d" by simp
        from Cons.IH [OF cont(2) np' this] False x show ?thesis by simp
      qed
    qed
  qed
qed

lemma loop_in_time:
  assumes "in_time d arrivals" and "readDeadline (conn c) = Some d" and "pongRenews (conn c)"
  shows "\<exists>cn. readPump_loop J arrivals c = Inr (Continue, c\<lparr>conn := cn\<rparr>)"
  using assms
proof (induction d arrivals arbitrary: c rule: in_time.induct)
  case (1 d)
  have "c = c\<lparr>conn := conn c\<rparr>" by simp
  then show ?case by (metis readPump_loop.simps(1))
next
  case (2 d t rest)
  let ?c = "c\<lparr>conn := (conn c)\<lparr>readDeadline := Some (t + pongWait)\<rparr>\<rparr>"
  from 2 have rm: "ReadMessage t PongFrame (conn c)
                     = (StillReading, (conn c)\<lparr>readDeadline := Some (t + pongWait)\<rparr>)"
    by (simp add: ReadMessage_def expired_def)
  from 2 have "\<exists>cn. readPump_loop J rest ?c = Inr (Continue, ?c\<lparr>conn := cn\<rparr>)"
    by (intro "2.IH") simp_all
  with rm show ?case by simp
next
  case (3 d t rest)
  from 3 have rm: "ReadMessage t PingFrame (conn c) = (StillReading, conn c)"
    by (simp add: ReadMessage_def expired_def)
  from 3 have "\<exists>cn. readPump_loop J rest c = Inr (Continue, c\<lparr>conn := cn\<rparr>)"
    by (intro "3.IH") simp_all
  with rm show ?case by simp
next
  case (4 d t rest)
  from 4 have rm: "ReadMessage t Quiet (conn c) = (StillReading, conn c)"
    by (simp add: ReadMessage_def expired_def)
  from 4 have "\<exists>cn. readPump_loop J rest c = Inr (Continue, c\<lparr>conn := cn\<rparr>)"
    by (intro "4.IH") simp_all
  with rm show ?case by simp
qed simp_all


text \<open>
  C3, as the code has it. \<^verbatim>\<open>readPump\<close> sets the read deadline to its start plus
  \<^verbatim>\<open>pongWait\<close>, and only the pong handler renews it, to the arrival of the pong plus
  \<^verbatim>\<open>pongWait\<close>. As long as no pong arrives the deadline stays where the start put it,
  whatever other frames are received, and the pump is still running only if nothing
  arrived after that deadline: a read after it fails and the client is unregistered. A
  client whose pongs each arrive before the deadline then in force is never dropped for
  silence.
\<close>

theorem deadline_renewed_by_pong_only:
  "readDeadline (conn (readPump_setup start c)) = Some (start + pongWait)
   \<and> (pongRenews cn \<and> \<not> expired now cn \<longrightarrow>
        ReadMessage now PongFrame cn = (StillReading, cn\<lparr>readDeadline := Some (now + pongWait)\<rparr>))
   \<and> (no_pong arrivals \<and> readPump J start arrivals c = Inr (k, c') \<longrightarrow>
        readDeadline (conn c') = Some (start + pongWait)
        \<and> (k = Continue \<longrightarrow> (\<forall>(t, a)\<in>set arrivals. t \<le> start + pongWait)))
   \<and> (in_time (start + pongWait) heartbeats \<longrightarrow>
        (\<exists>cn'. readPump J start heartbeats c = Inr (Continue, (readPump_setup start c)\<lparr>conn := cn'\<rparr>)))"
proof -
  have p1: "readDeadline (conn (readPump_setup start c)) = Some (start + pongWait)"
    by (simp add: readPump_setup_def)
  have p2: "pongRenews cn \<and> \<not> expired now cn \<longrightarrow>
        ReadMessage now PongFrame cn = (StillReading, cn\<lparr>readDeadline := Some (now + pongWait)\<rparr>)"
    by (simp add: ReadMessage_def)
  have p3: "no_pong arrivals \<and> readPump J start arrivals c = Inr (k, c') \<longrightarrow>
        readDeadline (conn c') = Some (start + pongWait)
        \<and> (k = Continue \<longrightarrow> (\<forall>(t, a)\<in>set arrivals. t \<le> start + pongWait))"
  proof
    assume a: "no_pong arrivals \<and> readPump J start arrivals c = Inr (k, c')"
    then have run: "readPump_loop J arrivals (readPump_setup start c) = Inr (k, c')"
      and np: "no_pong arrivals"
      by (simp_all add: readPump_def)
    from loop_no_pong [OF run np p1]
    show "readDeadline (conn c') = Some (start + pongWait)
        \<and> (k = Continue \<longrightarrow> (\<forall>(t, a)\<in>set arrivals. t \<le> start + pongWait))" .
  qed
  have p4: "in_time (start + pongWait) heartbeats \<longrightarrow>
        (\<exists>cn'. readPump J start heartbeats c = Inr (Continue, (readPump_setup start c)\<lparr>conn := cn'\<rparr>))"
  proof
    assume "in_time (start + pongWait) heartbeats"
    then show "\<exists>cn'. readPump J start heartbeats c = Inr (Continue, (readPump_setup start c)\<lparr>conn := cn'\<rparr>)"
      unfolding readPump_def
      by (rule loop_in_time) (simp_all add: readPump_setup_def)
  qed
  from p1 p2 p3 p4 show ?thesis by (intro conjI)
qed

text \<open>
  The claim as stated fails for a client that sends data frames but no pong: a frame 30
  seconds after the start leaves the deadline at 60 seconds, and the next frame, 40
  seconds later, finds the read failed and the pump leaves its loop.
\<close>

theorem deadline_renewed_by_pong_only_counterexample:
  "\<exists>c1 c2. readPump J0 0 [(30 * Second, DataFrame ''ping'')] (newClient [] 17) = Inr (Continue, c1)
      \<and> readDeadline (conn c1) = Some (60 * Second)
      \<and> readDeadline (conn c1) \<noteq> Some (30 * Second + pongWait)
      \<and> readPump J0 0 [(30 * Second, DataFrame ''ping''), (70 * Second, DataFrame ''ping'')]
            (newClient [] 17) = Inr (Break, c2)"
  by (simp add: readPump_def readPump_setup_def ReadMessage_def expired_def over_limit_def
        maxMessageSize_def pongWait_def Second_def readPump_body_def J0_def handleMessage_def
        SendMessage_def Marshal_def Message0_def Let_def select_send_def newClient_def
        make_chan_def newConn_def)


theorem deadline_renewed_by_pong_only_witness:
  "readDeadline (conn (readPump_setup 0 (newClient [] 17))) = Some (60 * Second)
   \<and> pongRenews (conn (readPump_setup 0 (newClient [] 17)))
   \<and> \<not> expired (55 * Second) (conn (readPump_setup 0 (newClient [] 17)))
   \<and> ReadMessage (55 * Second) PongFrame (conn (readPump_setup 0 (newClient [] 17)))
        = (StillReading, (conn (readPump_setup 0 (newClient [] 17)))\<lparr>readDeadline := Some (115 * Second)\<rparr>)
   \<and> no_pong [(30 * Second, DataFrame ''ping''), (70 * Second, DataFrame ''ping'')]
   \<and> (\<exists>c'. readPump J0 0 [(30 * Second, DataFrame ''ping''), (70 * Second, DataFrame ''ping'')]
              (newClient [] 17) = Inr (Break, c')
           \<and> readDeadline (conn c') = Some (60 * Second))
   \<and> in_time (60 * Second) [(55 * Second, PongFrame), (110 * Second, PongFrame), (170 * Second, Quiet)]
   \<and> (\<exists>cn'. readPump J0 0 [(55 * Second, PongFrame), (110 * Second, PongFrame), (170 * Second, Quiet)]
               (newClient [] 17)
             = Inr (Continue, (readPump_setup 0 (newClient [] 17))\<lparr>conn := cn'\<rparr>))"
proof -
  let ?c = "newClient [] 17"
  let ?cn = "conn (readPump_setup 0 ?c)"
  let ?A = "[(30 * Second, DataFrame ''ping''), (70 * Second, DataFrame ''ping'')]"
  let ?H = "[(55 * Second, PongFrame), (110 * Second, PongFrame), (170 * Second, Quiet)]"
  have w: "pongWait = 60 * Second" by (simp add: pongWait_def)
  have h1: "pongRenews ?cn \<and> \<not> expired (55 * Second) ?cn"
    by (simp add: readPump_setup_def expired_def pongWait_def Second_def)
  have h2: "no_pong ?A" by (simp add: no_pong_def)
  have "\<exists>c2. readPump J0 0 ?A ?c = Inr (Break, c2)"
    by (simp add: readPump_def readPump_setup_def ReadMessage_def expired_def over_limit_def
        maxMessageSize_def pongWait_def Second_def readPump_body_def J0_def handleMessage_def
        SendMessage_def Marshal_def Message0_def Let_def select_send_def newClient_def
        make_chan_def newConn_def)
  then obtain c2 where h3: "readPump J0 0 ?A ?c = Inr (Break, c2)" by (elim exE)
  have h4: "in_time (0 + pongWait) ?H" by (simp add: pongWait_def Second_def)
  note t = deadline_renewed_by_pong_only [of 0 ?c ?cn "55 * Second" ?A J0 Break c2 ?H]
  from t have a1: "readDeadline ?cn = Some (60 * Second)" by (simp add: w)
  from t h1 have a2: "ReadMessage (55 * Second) PongFrame ?cn
        = (StillReading, ?cn\<lparr>readDeadline := Some (115 * Second)\<rparr>)"
    by (simp add: w Second_def)
  from t h2 h3 have a3: "readDeadline (conn c2) = Some (60 * Second)" by (simp add: w)
  with h3 have a3': "\<exists>c'. readPump J0 0 ?A ?c = Inr (Break, c') \<and> readDeadline (conn c') = Some (60 * Second)"
    by (intro exI [of _ c2]) simp
  from t h4 have a4: "\<exists>cn'. readPump J0 0 ?H ?c = Inr (Continue, (readPump_setup 0 ?c)\<lparr>conn := cn'\<rparr>)"
    by simp
  from h4 have h4': "in_time (60 * Second) ?H" by (simp add: w)
  from a1 h1 a2 h2 a3' h4' a4 show ?thesis by (intro conjI) simp_all
qed


section \<open>Subscriptions keep the topic only\<close>

lemma alike_has_room: "alike a b \<Longrightarrow> has_room a = has_room b"
  by (simp add: alike_def has_room_def)

lemma alike_subscribed: "alike a b \<Longrightarrow> subscribed a topic = subscribed b topic"
  by (simp add: alike_def subscribed_def)

lemma alike_after_offer: "alike a b \<Longrightarrow> alike (after_offer d a) (after_offer e b)"
  by (simp add: alike_def after_offer_def has_room_def enqueued_def closed_off_def)

lemma after_offer_delta:
  "alike a b \<Longrightarrow> \<exists>delta. buf (send (after_offer d a)) = buf (send a) @ delta
                        \<and> buf (send (after_offer d b)) = buf (send b) @ delta"
  by (simp add: alike_def after_offer_def has_room_def enqueued_def closed_off_def)

lemma range_selective_alike:
  assumes run: "range_clients ks (selective sel d) st = Inr (log, st')"
    and en: "enumerates ks st"
    and sel: "sel (heap st r1) = sel (heap st r2)"
    and al: "alike (heap st r1) (heap st r2)"
    and reg: "clients st r1 = None \<longleftrightarrow> clients st r2 = None"
  shows "alike (heap st' r1) (heap st' r2)
       \<and> (clients st' r1 = None \<longleftrightarrow> clients st' r2 = None)
       \<and> (\<exists>delta. buf (send (heap st' r1)) = buf (send (heap st r1)) @ delta
                 \<and> buf (send (heap st' r2)) = buf (send (heap st r2)) @ delta)"
proof -
  from en have dist: "distinct ks" and keys: "set ks = dom (clients st)"
    by (simp_all add: enumerates_def)
  note eff = range_selective_effect [OF run dist]
  have hp: "\<And>r. heap st' r = (if clients st r \<noteq> None \<and> sel (heap st r)
                               then after_offer d (heap st r) else heap st r)"
    using eff keys by (auto simp: fun_eq_iff)
  have cl: "\<And>r. clients st' r = (if clients st r \<noteq> None \<and> sel (heap st r)
                                     \<and> \<not> has_room (heap st r) then None else clients st r)"
    using eff keys by (auto simp: fun_eq_iff)
  show ?thesis
  proof (cases "clients st r1 \<noteq> None \<and> sel (heap st r1)")
    case True
    with reg sel have t2: "clients st r2 \<noteq> None \<and> sel (heap st r2)" by simp
    from True t2 have h: "heap st' r1 = after_offer d (heap st r1)" "heap st' r2 = after_offer d (heap st r2)"
      by (auto simp: hp)
    from True t2 alike_has_room [OF al] reg
    have c: "clients st' r1 = None \<longleftrightarrow> clients st' r2 = None"
      by (auto simp: cl)
    from h c alike_after_offer [OF al, of d d] after_offer_delta [OF al, of d] show ?thesis by simp
  next
    case False
    with reg sel have f2: "\<not> (clients st r2 \<noteq> None \<and> sel (heap st r2))" by simp
    from False f2 have h: "heap st' r1 = heap st r1" "heap st' r2 = heap st r2"
      by (auto simp: hp)
    from False f2 reg have c: "clients st' r1 = None \<longleftrightarrow> clients st' r2 = None"
      by (auto simp: cl)
    from h c al show ?thesis by simp
  qed
qed

lemma publish_alike:
  assumes run: "publish J p st = Inr (log, st')"
    and en: "enumerates (order_of p) st"
    and al: "alike (heap st r1) (heap st r2)"
    and reg: "clients st r1 = None \<longleftrightarrow> clients st r2 = None"
  shows "alike (heap st' r1) (heap st' r2)
       \<and> (clients st' r1 = None \<longleftrightarrow> clients st' r2 = None)
       \<and> (\<exists>delta. buf (send (heap st' r1)) = buf (send (heap st r1)) @ delta
                 \<and> buf (send (heap st' r2)) = buf (send (heap st r2)) @ delta)"
proof (cases p)
  case (Global ks message)
  have body: "offer message = selective (\<lambda>c. True) message"
    by (simp add: selective_def fun_eq_iff)
  from run Global have r: "range_clients ks (selective (\<lambda>c. True) message) st = Inr (log, st')"
    by (simp add: Run_broadcast_def body)
  from en Global have e: "enumerates ks st" by simp
  show ?thesis by (rule range_selective_alike [OF r e _ al reg]) simp
next
  case (Topic ks topic message)
  from en Topic have e: "enumerates ks st" by simp
  show ?thesis
  proof (cases "Marshal J message")
    case None
    with run Topic have "st' = st" by (simp add: BroadcastToSubscribers_def)
    with al reg show ?thesis by simp
  next
    case (Some d)
    with run Topic
    have r: "range_clients ks (selective (\<lambda>c. subscribed c topic) d) st = Inr (log, st')"
      by (simp add: BroadcastToSubscribers_def selective_def)
    show ?thesis
      by (rule range_selective_alike [OF r e _ al reg]) (rule alike_subscribed [OF al])
  qed
qed

lemma publish_all_alike:
  assumes "publish_all J ps st = Inr st'"
    and "orders_ok J ps st"
    and "alike (heap st r1) (heap st r2)"
    and "clients st r1 = None \<longleftrightarrow> clients st r2 = None"
  shows "alike (heap st' r1) (heap st' r2)
       \<and> (clients st' r1 = None \<longleftrightarrow> clients st' r2 = None)
       \<and> (\<exists>delta. buf (send (heap st' r1)) = buf (send (heap st r1)) @ delta
                 \<and> buf (send (heap st' r2)) = buf (send (heap st r2)) @ delta)"
  using assms
proof (induction ps arbitrary: st)
  case Nil
  then show ?case by simp
next
  case (Cons p ps)
  from Cons.prems(1) obtain log st1 where
    p: "publish J p st = Inr (log, st1)" and rest: "publish_all J ps st1 = Inr st'"
    by (auto split: sum.splits)
  from Cons.prems(2) p have en: "enumerates (order_of p) st" and ok: "orders_ok J ps st1"
    by simp_all
  from publish_alike [OF p en Cons.prems(3) Cons.prems(4)]
  have al1: "alike (heap st1 r1) (heap st1 r2)"
    and reg1: "clients st1 r1 = None \<longleftrightarrow> clients st1 r2 = None"
    and d1: "\<exists>delta. buf (send (heap st1 r1)) = buf (send (heap st r1)) @ delta
                 \<and> buf (send (heap st1 r2)) = buf (send (heap st r2)) @ delta"
    by simp_all
  from Cons.IH [OF rest ok al1 reg1]
  have al2: "alike (heap st' r1) (heap st' r2)"
    and reg2: "clients st' r1 = None \<longleftrightarrow> clients st' r2 = None"
    and d2: "\<exists>delta. buf (send (heap st' r1)) = buf (send (heap st1 r1)) @ delta
                 \<and> buf (send (heap st' r2)) = buf (send (heap st1 r2)) @ delta"
    by simp_all
  from d1 obtain x where x: "buf (send (heap st1 r1)) = buf (send (heap st r1)) @ x"
    "buf (send (heap st1 r2)) = buf (send (heap st r2)) @ x" by (elim exE conjE)
  from d2 obtain y where y: "buf (send (heap st' r1)) = buf (send (heap st1 r1)) @ y"
    "buf (send (heap st' r2)) = buf (send (heap st1 r2)) @ y" by (elim exE conjE)
  from x y have "buf (send (heap st' r1)) = buf (send (heap st r1)) @ (x @ y)
       \<and> buf (send (heap st' r2)) = buf (send (heap st r2)) @ (x @ y)" by simp
  then have "\<exists>delta. buf (send (heap st' r1)) = buf (send (heap st r1)) @ delta
                 \<and> buf (send (heap st' r2)) = buf (send (heap st r2)) @ delta" by (rule exI)
  with al2 reg2 show ?case by simp
qed


lemma handleSubscription_Some:
  assumes "decodeSubscription J (Data m) = Some s" and "handleSubscription J now m c = Inr c'"
  shows "subscriptions c' = (subscriptions c)(subType s \<mapsto> True)
       \<and> closed (send c') = (\<not> has_room c) \<and> \<not> closed (send c)
       \<and> length (buf (send c')) = (if has_room c then Suc (length (buf (send c))) else length (buf (send c)))
       \<and> cap (send c') = cap (send c)"
  using assms
  by (auto simp: handleSubscription_def SendMessage_def Marshal_def Message0_def Let_def
        select_send_def close_chan_def has_room_def split: if_splits)

text \<open>
  C10. A subscribe request records the topic of the parsed subscription in the client's
  subscription set, as a key with value true, and nothing of its \<^verbatim>\<open>Instruments\<close> and
  \<^verbatim>\<open>AccountIDs\<close>. So two clients that were alike before, and whose requests name the same
  topic with whatever filter lists, have the same subscription set afterwards, and every
  sequence of publications (broadcasts and topic broadcasts) puts the same messages on
  both queues and leaves both registered or both evicted.
\<close>

theorem filters_ignored:
  assumes "decodeSubscription J (Data m1) = Some s1" and "decodeSubscription J (Data m2) = Some s2"
    and "subType s1 = subType s2"
    and "alike a b"
    and "handleSubscription J t1 m1 a = Inr a'" and "handleSubscription J t2 m2 b = Inr b'"
    and "heap st r1 = a'" and "heap st r2 = b'"
    and "clients st r1 = None \<longleftrightarrow> clients st r2 = None"
    and "orders_ok J ps st" and "publish_all J ps st = Inr st'"
  shows "subscriptions a' = (subscriptions a)(subType s1 \<mapsto> True)
       \<and> subscriptions b' = subscriptions a'
       \<and> (\<exists>delta. buf (send (heap st' r1)) = buf (send a') @ delta
                 \<and> buf (send (heap st' r2)) = buf (send b') @ delta)
       \<and> (clients st' r1 = None \<longleftrightarrow> clients st' r2 = None)
       \<and> subscriptions (heap st' r1) = subscriptions (heap st' r2)"
proof -
  note ha = handleSubscription_Some [OF assms(1) assms(5)]
  note hb = handleSubscription_Some [OF assms(2) assms(6)]
  from assms(4) have ab: "subscriptions a = subscriptions b" "has_room a = has_room b"
    "length (buf (send a)) = length (buf (send b))" "cap (send a) = cap (send b)"
    by (simp_all add: alike_def has_room_def)
  from ha have 1: "subscriptions a' = (subscriptions a)(subType s1 \<mapsto> True)" by simp
  from ha hb ab assms(3) have 2: "subscriptions b' = subscriptions a'" by simp
  from ha hb ab 2 have al: "alike a' b'" by (simp add: alike_def)
  with assms(7) assms(8) have al': "alike (heap st r1) (heap st r2)" by simp
  from publish_all_alike [OF assms(11) assms(10) al' assms(9)] assms(7) assms(8)
  show ?thesis using 1 2 by (simp add: alike_def)
qed

lemma client_ids: "generateClientID 17 = ''client_17''" "generateClientID 18 = ''client_18''"
  by (simp_all add: generateClientID_def dec_int_def dec_nat.simps digit_def)

lemma two_requests:
  "decodeSubscription J0 (Data req_AAPL)
     = Some \<lparr>subType = ''orders'', Instruments = [''AAPL''], AccountIDs = []\<rparr>"
  "decodeSubscription J0 (Data req_SBER)
     = Some \<lparr>subType = ''orders'', Instruments = [''SBER''], AccountIDs = [''acc1'']\<rparr>"
  "handleSubscription J0 5 req_AAPL (newClient [] 17) = Inr ack_AAPL"
  "handleSubscription J0 6 req_SBER (newClient [] 18) = Inr ack_SBER"
  "alike (newClient [] 17) (newClient [] 18)"
  by (simp_all add: handleSubscription_def J0_def Message0_def SendMessage_def Marshal_def Let_def
        select_send_def newClient_def make_chan_def ack_AAPL_def ack_SBER_def enqueued_def
        client_ids req_AAPL_def req_SBER_def alike_def)

lemma two_runs:
  "publish_all J0 two_publications two_subscribers = Inr two_served"
  "orders_ok J0 two_publications two_subscribers"
  by (auto simp: two_subscribers_def BroadcastToSubscribers_def Run_broadcast_def Marshal_def
        Message0_def J0_def subscribed_def offer_def select_send_def enumerates_def
        ack_AAPL_def ack_SBER_def enqueued_def newClient_def make_chan_def fun_eq_iff
        two_publications_def two_served_def)

theorem filters_ignored_witness:
  "decodeSubscription J0 (Data req_AAPL)
     = Some \<lparr>subType = ''orders'', Instruments = [''AAPL''], AccountIDs = []\<rparr>
   \<and> decodeSubscription J0 (Data req_SBER)
     = Some \<lparr>subType = ''orders'', Instruments = [''SBER''], AccountIDs = [''acc1'']\<rparr>
   \<and> alike (newClient [] 17) (newClient [] 18)
   \<and> handleSubscription J0 5 req_AAPL (newClient [] 17) = Inr ack_AAPL
   \<and> handleSubscription J0 6 req_SBER (newClient [] 18) = Inr ack_SBER
   \<and> heap two_subscribers 1 = ack_AAPL \<and> heap two_subscribers 2 = ack_SBER
   \<and> orders_ok J0 two_publications two_subscribers
   \<and> publish_all J0 two_publications two_subscribers = Inr two_served
   \<and> subscriptions ack_AAPL = (subscriptions (newClient [] 17))(''orders'' \<mapsto> True)
   \<and> subscriptions ack_SBER = subscriptions ack_AAPL
   \<and> (\<exists>delta. buf (send (heap two_served 1)) = buf (send ack_AAPL) @ delta
             \<and> buf (send (heap two_served 2)) = buf (send ack_SBER) @ delta)"
proof -
  have h1: "heap two_subscribers 1 = ack_AAPL" and h2: "heap two_subscribers 2 = ack_SBER"
    by (simp_all add: two_subscribers_def)
  have reg: "clients two_subscribers 1 = None \<longleftrightarrow> clients two_subscribers 2 = None"
    by (simp add: two_subscribers_def)
  have same: "subType \<lparr>subType = ''orders'', Instruments = [''AAPL''], AccountIDs = []\<rparr>
            = subType \<lparr>subType = ''orders'', Instruments = [''SBER''], AccountIDs = [''acc1'']\<rparr>"
    by simp
  note t = filters_ignored [OF two_requests(1) two_requests(2) same two_requests(5)
             two_requests(3) two_requests(4) h1 h2 reg two_runs(2) two_runs(1)]
  from t have c1: "subscriptions ack_AAPL = (subscriptions (newClient [] 17))(''orders'' \<mapsto> True)"
    by simp
  from t have c2: "subscriptions ack_SBER = subscriptions ack_AAPL"
    by (elim conjE)
  from t have c3: "\<exists>delta. buf (send (heap two_served 1)) = buf (send ack_AAPL) @ delta
             \<and> buf (send (heap two_served 2)) = buf (send ack_SBER) @ delta"
    by (elim conjE)
  from two_requests h1 h2 two_runs c1 c2 c3 show ?thesis by (intro conjI)
qed


end
